theory Spec2Isabelle
  imports Main
begin

section \<open>Data model (types/profiles.ts)\<close>

text \<open>
  A JavaScript \<open>Date\<close> is modelled by its instant, in milliseconds since the epoch. An
  optional property (\<open>database?: string\<close>) is an \<open>option\<close>: \<open>None\<close> is \<open>undefined\<close>.
\<close>

type_synonym timestamp = int

record ProfileMetadata =
  createdAt :: "timestamp option"
  lastUsed :: "timestamp option"
  lastTested :: "timestamp option"
  environment :: "string option"
  description :: "string option"
  isDefault :: "bool option"

text \<open>Connection options are not interpreted by the code under study: a list of
  option names with their rendered values.\<close>

type_synonym MongoConnectionOptions = "(string \<times> string) list"

record ConnectionProfile =
  name :: string
  uri :: string
  database :: "string option"
  profile_alias :: "string option"
  tags :: "string list option"
  options :: "MongoConnectionOptions option"
  metadata :: "ProfileMetadata option"

datatype Topology = Single | ReplicaSetNoPrimary | ReplicaSetWithPrimary | Sharded | Unknown

record ConnectionHealth =
  isConnected :: bool
  latency :: int
  serverVersion :: string
  replicaSet :: "string option"
  topology :: Topology
  connectionCount :: nat
  testedAt :: timestamp
  error :: "string option"

subsection \<open>JavaScript \<open>Map\<close> as an association list in insertion order\<close>

text \<open>
  \<open>Map.prototype.set\<close> replaces the value of a key that is present, keeping its position,
  and appends a new key at the end; \<open>delete\<close> reports whether the key was present.
\<close>

type_synonym ('k, 'v) jsmap = "('k \<times> 'v) list"

fun map_set :: "'k \<Rightarrow> 'v \<Rightarrow> ('k, 'v) jsmap \<Rightarrow> ('k, 'v) jsmap" where
  "map_set k v [] = [(k, v)]"
| "map_set k v ((k', v') # m) = (if k' = k then (k, v) # m else (k', v') # map_set k v m)"

definition map_get :: "('k, 'v) jsmap \<Rightarrow> 'k \<Rightarrow> 'v option" where
  "map_get m k = map_of m k"

definition map_has :: "('k, 'v) jsmap \<Rightarrow> 'k \<Rightarrow> bool" where
  "map_has m k = (map_of m k \<noteq> None)"

definition map_delete :: "'k \<Rightarrow> ('k, 'v) jsmap \<Rightarrow> bool \<times> ('k, 'v) jsmap" where
  "map_delete k m = (map_has m k, filter (\<lambda>kv. fst kv \<noteq> k) m)"

definition map_keys :: "('k, 'v) jsmap \<Rightarrow> 'k list" where
  "map_keys m = map fst m"

definition map_values :: "('k, 'v) jsmap \<Rightarrow> 'v list" where
  "map_values m = map snd m"

section \<open>Smart connection manager (utils/smart-connection-manager.ts)\<close>

subsection \<open>State of the manager\<close>

record PooledConnection =
  client :: nat
  profile :: ConnectionProfile
  conn_lastUsed :: timestamp
  healthCache :: "ConnectionHealth option"
  healthCacheExpiry :: "timestamp option"

datatype BreakerState = Closed | Open | HalfOpen

record CircuitBreakerState =
  failures :: nat
  lastFailure :: "timestamp option"
  state :: BreakerState
  nextAttempt :: "timestamp option"

text \<open>
  Every use the manager makes of the database driver is recorded, in order, in
  \<open>net_log\<close>: \<open>Ping\<close> is the liveness ping of a pooled client, \<open>Dial\<close> a run of
  \<open>createConnection\<close> (a client is constructed, connected and pinged, as far as it gets),
  \<open>Probe\<close> a run of the \<open>try\<close> block of \<open>test\<close> (likewise, with its short-lived
  client). A call that adds nothing to the log made no network attempt.
\<close>

datatype net_event = Ping string | Dial string | Probe string

record manager =
  connections :: "(string, PooledConnection) jsmap"
  circuitBreakers :: "string \<rightharpoonup> CircuitBreakerState"
  net_log :: "net_event list"

definition healthCacheTTL :: int where
  "healthCacheTTL = 30000"

definition maxFailures :: nat where
  "maxFailures = 3"

definition circuitBreakerTimeout :: int where
  "circuitBreakerTimeout = 60000"

definition new_manager :: manager where
  "new_manager = \<lparr>connections = [], circuitBreakers = Map.empty, net_log = []\<rparr>"

subsection \<open>What the driver and the clock answer\<close>

text \<open>
  A thrown value is an \<open>Error\<close> with its message, or another value that \<open>String(...)\<close>
  renders, with its rendering, or a value on which \<open>String(...)\<close> itself throws, with what
  it throws: a \<open>TypeError\<close> for an object that has no conversion to a primitive (one
  without \<open>toString\<close> and \<open>valueOf\<close>, such as \<open>Object.create(null)\<close>), or whatever the
  \<open>toString\<close> of the object throws. \<open>thrown_text\<close> is
  \<open>error instanceof Error ? error.message : String(error)\<close>: \<open>Inr\<close> the text, or
  \<open>Inl\<close> what the conversion throws.
\<close>

datatype thrown = JsError string | JsValue string | JsUnprintable thrown

fun thrown_text :: "thrown \<Rightarrow> thrown + string" where
  "thrown_text (JsError msg) = Inr msg"
| "thrown_text (JsValue s) = Inr s"
| "thrown_text (JsUnprintable e) = Inl e"

record ReplInfo =
  setName :: "string option"
  ismaster :: bool
  isPrimary :: bool

record ServerStatus =
  repl :: "ReplInfo option"
  sharding :: bool
  connections_current :: "nat option"

text \<open>
  One run of \<open>test\<close> against the driver: the constructor of the client, \<open>connect\<close>,
  the pair of admin commands under \<open>Promise.all\<close> (both answers, or the first
  rejection) and \<open>close\<close>; and the five clock readings of the method.
\<close>

record driver_run =
  ctor :: "thrown option"
  conn :: "thrown option"
  admin :: "thrown + (ServerStatus \<times> string)"
  closing :: "thrown option"

record test_clock =
  now_start :: timestamp
  now_ok :: timestamp
  date_ok :: timestamp
  now_caught :: timestamp
  date_caught :: timestamp

subsection \<open>\<open>test\<close>\<close>

definition determineTopology :: "ServerStatus \<Rightarrow> Topology" where
  "determineTopology serverStatus =
     (case repl serverStatus of
        Some r \<Rightarrow> (if ismaster r \<or> isPrimary r then ReplicaSetWithPrimary else ReplicaSetNoPrimary)
      | None \<Rightarrow> (if sharding serverStatus then Sharded else Single))"

text \<open>The body of the \<open>try\<close> block: the first throwing step ends it.\<close>

definition test_try :: "test_clock \<Rightarrow> driver_run \<Rightarrow> thrown + ConnectionHealth" where
  "test_try clk run =
     (case ctor run of Some e \<Rightarrow> Inl e | None \<Rightarrow>
      (case conn run of Some e \<Rightarrow> Inl e | None \<Rightarrow>
       (case admin run of Inl e \<Rightarrow> Inl e | Inr (serverStatus, buildVersion) \<Rightarrow>
        (let health = \<lparr>isConnected = True,
                        latency = now_ok clk - now_start clk,
                        serverVersion = buildVersion,
                        replicaSet = (case repl serverStatus of None \<Rightarrow> None | Some r \<Rightarrow> setName r),
                        topology = determineTopology serverStatus,
                        connectionCount = (case connections_current serverStatus of None \<Rightarrow> 0 | Some n \<Rightarrow> n),
                        testedAt = date_ok clk,
                        error = None\<rparr>
         in (case closing run of Some e \<Rightarrow> Inl e | None \<Rightarrow> Inr health)))))"

text \<open>
  The \<open>catch\<close> block builds the result with the text of what was caught; when that text
  cannot be computed what the conversion throws leaves the block, and the method, as an
  exception.
\<close>

definition failed_health :: "test_clock \<Rightarrow> string \<Rightarrow> ConnectionHealth" where
  "failed_health clk msg =
     \<lparr>isConnected = False,
      latency = now_caught clk - now_start clk,
      serverVersion = ''unknown'',
      replicaSet = None,
      topology = Unknown,
      connectionCount = 0,
      testedAt = date_caught clk,
      error = Some msg\<rparr>"

definition test_caught :: "test_clock \<Rightarrow> thrown \<Rightarrow> thrown + ConnectionHealth" where
  "test_caught clk e =
     (case thrown_text e of
        Inl failure \<Rightarrow> Inl failure
      | Inr msg \<Rightarrow> Inr (failed_health clk msg))"

text \<open>
  \<open>test\<close> returns a sum like every method that could throw: \<open>Inl\<close> is an exception
  reaching the caller. The manager's own state is untouched; the probe is logged.
\<close>

definition test :: "test_clock \<Rightarrow> driver_run \<Rightarrow> ConnectionProfile \<Rightarrow> manager
    \<Rightarrow> (thrown + ConnectionHealth) \<times> manager" where
  "test clk run p M =
     (let M' = M\<lparr>net_log := net_log M @ [Probe (name p)]\<rparr>
      in (case test_try clk run of
            Inr health \<Rightarrow> (Inr health, M')
          | Inl e \<Rightarrow> (test_caught clk e, M')))"

subsection \<open>\<open>getHealth\<close> and \<open>listConnections\<close>\<close>

record health_env =
  date_check :: timestamp
  probe_clock :: test_clock
  probe_run :: driver_run
  now_cached :: timestamp

text \<open>The fresh check of \<open>getHealth\<close>: run \<open>test\<close> on the pooled connection's profile and
  store the result and its expiry on the pooled connection.\<close>

definition getHealth_fresh :: "health_env \<Rightarrow> string \<Rightarrow> PooledConnection \<Rightarrow> manager
    \<Rightarrow> (thrown + ConnectionHealth option) \<times> manager" where
  "getHealth_fresh env profileName connection M =
     (case test (probe_clock env) (probe_run env) (profile connection) M of
        (Inl e, M') \<Rightarrow> (Inl e, M')
      | (Inr health, M') \<Rightarrow>
          (Inr (Some health),
           M'\<lparr>connections := map_set profileName
              (connection\<lparr>healthCache := Some health,
                 healthCacheExpiry := Some (now_cached env + healthCacheTTL)\<rparr>)
              (connections M')\<rparr>))"

definition getHealth :: "health_env \<Rightarrow> string \<Rightarrow> manager
    \<Rightarrow> (thrown + ConnectionHealth option) \<times> manager" where
  "getHealth env profileName M =
     (case map_get (connections M) profileName of
        None \<Rightarrow> (Inr None, M)
      | Some connection \<Rightarrow>
          (case (healthCache connection, healthCacheExpiry connection) of
             (Some cached, Some expiry) \<Rightarrow>
               if date_check env < expiry then (Inr (Some cached), M)
               else getHealth_fresh env profileName connection M
           | _ \<Rightarrow> getHealth_fresh env profileName connection M))"

text \<open>
  \<open>listConnections\<close> starts one task per pooled name and gathers them with
  \<open>Promise.allSettled\<close>: a task that throws adds nothing. Each task writes only the
  health cache of its own pooled connection, so the tasks are run here one after the
  other in key order; \<open>envs\<close> gives each name the answers its task receives.
\<close>

fun listConnections_tasks :: "(string \<Rightarrow> health_env) \<Rightarrow> string list
    \<Rightarrow> (string \<rightharpoonup> ConnectionHealth) \<Rightarrow> manager
    \<Rightarrow> (string \<rightharpoonup> ConnectionHealth) \<times> manager" where
  "listConnections_tasks envs [] results M = (results, M)"
| "listConnections_tasks envs (n # ns) results M =
     (case getHealth (envs n) n M of
        (Inr (Some health), M') \<Rightarrow> listConnections_tasks envs ns (results(n \<mapsto> health)) M'
      | (_, M') \<Rightarrow> listConnections_tasks envs ns results M')"

definition listConnections :: "(string \<Rightarrow> health_env) \<Rightarrow> manager
    \<Rightarrow> (string \<rightharpoonup> ConnectionHealth) \<times> manager" where
  "listConnections envs M = listConnections_tasks envs (map_keys (connections M)) Map.empty M"

subsection \<open>\<open>connect\<close> and the circuit breaker\<close>

text \<open>
  What one call of \<open>connect\<close> receives from outside: whether the liveness ping of the
  pooled client succeeds (asked only when a pooled connection exists), how
  \<open>createConnection\<close> ends (\<open>None\<close>: connected and pinged), the handle of the new client
  and the clock readings of the lines that read the clock.
\<close>

record connect_env =
  ping_ok :: bool
  dial :: "thrown option"
  new_client :: nat
  date_reuse :: timestamp
  date_breaker :: timestamp
  date_created :: timestamp
  date_failure :: timestamp
  now_failure :: timestamp

text \<open>\<open>Disabled n\<close> is the error "Connection to 'n' is temporarily disabled due to repeated
  failures"; \<open>Thrown e\<close> is an error of the driver, rethrown.\<close>

datatype connect_error = Disabled string | Thrown thrown

definition isConnectionHealthy :: "bool \<Rightarrow> PooledConnection \<Rightarrow> manager \<Rightarrow> bool \<times> manager" where
  "isConnectionHealthy ok connection M =
     (ok, M\<lparr>net_log := net_log M @ [Ping (name (profile connection))]\<rparr>)"

definition createConnection :: "connect_env \<Rightarrow> ConnectionProfile \<Rightarrow> manager
    \<Rightarrow> (thrown + unit) \<times> manager" where
  "createConnection env p M =
     (let M1 = M\<lparr>net_log := net_log M @ [Dial (name p)]\<rparr>
      in (case dial env of
            Some e \<Rightarrow> (Inl e, M1)
          | None \<Rightarrow>
              (Inr (),
               M1\<lparr>connections := map_set (name p)
                  \<lparr>client = new_client env, profile = p, conn_lastUsed = date_created env,
                   healthCache = None, healthCacheExpiry = None\<rparr>
                  (connections M1)\<rparr>)))"

definition isCircuitBreakerOpen :: "timestamp \<Rightarrow> string \<Rightarrow> manager \<Rightarrow> bool \<times> manager" where
  "isCircuitBreakerOpen now profileName M =
     (case circuitBreakers M profileName of
        None \<Rightarrow> (False, M)
      | Some breaker \<Rightarrow>
          if state breaker = Open then
            (if (case nextAttempt breaker of None \<Rightarrow> False | Some t \<Rightarrow> now > t)
             then (False, M\<lparr>circuitBreakers :=
                     (circuitBreakers M)(profileName \<mapsto> breaker\<lparr>state := HalfOpen\<rparr>)\<rparr>)
             else (True, M))
          else (False, M))"

definition recordFailure :: "timestamp \<Rightarrow> timestamp \<Rightarrow> string \<Rightarrow> manager \<Rightarrow> manager" where
  "recordFailure date now profileName M =
     (let breaker = (case circuitBreakers M profileName of
                       Some b \<Rightarrow> b
                     | None \<Rightarrow> \<lparr>failures = 0, lastFailure = None, state = Closed, nextAttempt = None\<rparr>);
          counted = breaker\<lparr>failures := failures breaker + 1, lastFailure := Some date\<rparr>;
          tripped = (if failures counted \<ge> maxFailures
                     then counted\<lparr>state := Open, nextAttempt := Some (now + circuitBreakerTimeout)\<rparr>
                     else counted)
      in M\<lparr>circuitBreakers := (circuitBreakers M)(profileName \<mapsto> tripped)\<rparr>)"

definition resetCircuitBreaker :: "string \<Rightarrow> manager \<Rightarrow> manager" where
  "resetCircuitBreaker profileName M =
     M\<lparr>circuitBreakers := (circuitBreakers M)(profileName := None)\<rparr>"

text \<open>The \<open>try\<close> block of \<open>connect\<close> with its \<open>catch\<close>: one attempt to open a connection;
  the breaker record is removed when it succeeds, the failure is recorded and the error
  rethrown when it fails.\<close>

definition connect_attempt :: "connect_env \<Rightarrow> ConnectionProfile \<Rightarrow> manager
    \<Rightarrow> (connect_error + unit) \<times> manager" where
  "connect_attempt env p M1 =
     (case createConnection env p M1 of
        (Inr u, M2) \<Rightarrow> (Inr (), resetCircuitBreaker (name p) M2)
      | (Inl e, M2) \<Rightarrow>
          (Inl (Thrown e), recordFailure (date_failure env) (now_failure env) (name p) M2))"

text \<open>\<open>connect\<close> from its check of the circuit breaker on: the part that runs when there
  is no pooled connection, or the pooled one fails its ping.\<close>

definition connect_fresh :: "connect_env \<Rightarrow> ConnectionProfile \<Rightarrow> manager
    \<Rightarrow> (connect_error + unit) \<times> manager" where
  "connect_fresh env p M =
     (case isCircuitBreakerOpen (date_breaker env) (name p) M of
        (True, M1) \<Rightarrow> (Inl (Disabled (name p)), M1)
      | (False, M1) \<Rightarrow> connect_attempt env p M1)"

definition connect :: "connect_env \<Rightarrow> ConnectionProfile \<Rightarrow> manager
    \<Rightarrow> (connect_error + unit) \<times> manager" where
  "connect env p M =
     (case map_get (connections M) (name p) of
        None \<Rightarrow> connect_fresh env p M
      | Some existing \<Rightarrow>
          (case isConnectionHealthy (ping_ok env) existing M of
             (True, M1) \<Rightarrow>
               (Inr (), M1\<lparr>connections := map_set (name p)
                          (existing\<lparr>conn_lastUsed := date_reuse env\<rparr>) (connections M1)\<rparr>)
           | (False, M1) \<Rightarrow> connect_fresh env p M1))"

text \<open>The breaker of a name is open until \<open>t\<close>, with the failure count that opened it.\<close>

definition breaker_open_until :: "manager \<Rightarrow> string \<Rightarrow> timestamp \<Rightarrow> bool" where
  "breaker_open_until M n t =
     (case circuitBreakers M n of
        None \<Rightarrow> False
      | Some b \<Rightarrow> state b = Open \<and> nextAttempt b = Some t \<and> maxFailures \<le> failures b)"

text \<open>The manager with the breaker record of a name, if it has one, set to half-open.\<close>

definition half_opened :: "string \<Rightarrow> manager \<Rightarrow> manager" where
  "half_opened n M =
     (case circuitBreakers M n of
        None \<Rightarrow> M
      | Some b \<Rightarrow> M\<lparr>circuitBreakers := (circuitBreakers M)(n \<mapsto> b\<lparr>state := HalfOpen\<rparr>)\<rparr>)"

section \<open>Secure profile store (utils/profile-store.ts)\<close>

subsection \<open>On-disk representation\<close>

text \<open>
  \<open>StoredProfile\<close> and \<open>ProfileStorage\<close> as the source declares them; the fields of a
  stored profile carry the prefix \<open>sp_\<close> where the name is a field of \<open>ConnectionProfile\<close>
  too, and \<open>file_createdAt\<close> is the \<open>createdAt\<close> of the container. Parsed JSON is not
  checked against the interface, so the metadata of a stored profile may be missing.
\<close>

record StoredProfile =
  sp_name :: string
  encryptedUri :: string
  sp_database :: "string option"
  sp_alias :: "string option"
  sp_tags :: "string list option"
  sp_options :: "MongoConnectionOptions option"
  sp_metadata :: "ProfileMetadata option"
  iv :: string

record ProfileStorage =
  profiles :: "StoredProfile list"
  defaultProfile :: "string option"
  version :: string
  file_createdAt :: string

text \<open>
  The text of a file is either the JSON rendering of a storage container, which
  \<open>JSON.parse\<close> reads back as that container (\<open>JSON.stringify\<close> omits the properties
  that are undefined, and \<open>None\<close> is read back for them), or a text that \<open>JSON.parse\<close>
  rejects with a \<open>SyntaxError\<close>. Texts that parse to a value of another shape are not
  represented; the store itself never writes one.
\<close>

datatype json_text = Json ProfileStorage | Malformed

text \<open>
  The errors that leave the store. The four validation errors and the duplicate-name error
  are the \<open>Error\<close>s the source constructs, named after their messages; \<open>FsError c\<close> is an
  error of the \<open>fs\<close> module whose \<open>code\<close> is \<open>c\<close>; a \<open>SyntaxError\<close> has no code.
\<close>

datatype store_error =
    NameRequired
  | NameInvalid
  | UriRequired
  | UriScheme
  | DuplicateName string
  | FsError string
  | JsonSyntaxError
  | InvalidImportData store_error

subsection \<open>The file system and the store object\<close>

text \<open>
  \<open>profilesFile\<close> and \<open>tempFile\<close> are the files at the paths of those names, with their
  modification times; \<open>dir_exists\<close> tells whether the configuration directory exists.
  \<open>faults\<close> are standing conditions of the file system (permission denied, disk full):
  the error code each primitive fails with, if it does. \<open>fs_log\<close> records the calls of
  the \<open>fs\<close> module in order. \<open>cachedProfiles\<close> and \<open>lastModified\<close> are the two mutable
  fields of the store object.
\<close>

record fs_file =
  content :: json_text
  mtime :: timestamp

record faults =
  stat_fault :: "string option"
  mkdir_fault :: "string option"
  readFile_fault :: "string option"
  writeFile_fault :: "string option"
  rename_fault :: "string option"

datatype fs_event = Stat | Mkdir | ReadFile | WriteFile | Rename

record store =
  dir_exists :: bool
  profilesFile :: "fs_file option"
  tempFile :: "fs_file option"
  faults :: faults
  fs_log :: "fs_event list"
  cachedProfiles :: "(string, ConnectionProfile) jsmap"
  lastModified :: timestamp

definition no_faults :: faults where
  "no_faults = \<lparr>stat_fault = None, mkdir_fault = None, readFile_fault = None,
     writeFile_fault = None, rename_fault = None\<rparr>"

text \<open>A new store object (empty cache, \<open>lastModified = 0\<close>) on a file system where neither
  the directory nor the file exists yet.\<close>

definition fresh_store :: store where
  "fresh_store = \<lparr>dir_exists = False, profilesFile = None, tempFile = None, faults = no_faults,
     fs_log = [], cachedProfiles = [], lastModified = 0\<rparr>"

definition logged :: "fs_event \<Rightarrow> store \<Rightarrow> store" where
  "logged ev s = s\<lparr>fs_log := fs_log s @ [ev]\<rparr>"

definition fs_stat :: "store \<Rightarrow> (store_error + timestamp) \<times> store" where
  "fs_stat s =
     (case stat_fault (faults s) of
        Some c \<Rightarrow> (Inl (FsError c), logged Stat s)
      | None \<Rightarrow>
          (case profilesFile s of
             None \<Rightarrow> (Inl (FsError ''ENOENT''), logged Stat s)
           | Some f \<Rightarrow> (Inr (mtime f), logged Stat s)))"

definition fs_mkdir :: "store \<Rightarrow> (store_error + unit) \<times> store" where
  "fs_mkdir s =
     (case mkdir_fault (faults s) of
        Some c \<Rightarrow> (Inl (FsError c), logged Mkdir s)
      | None \<Rightarrow> (Inr (), (logged Mkdir s)\<lparr>dir_exists := True\<rparr>))"

definition fs_readFile :: "store \<Rightarrow> (store_error + json_text) \<times> store" where
  "fs_readFile s =
     (case readFile_fault (faults s) of
        Some c \<Rightarrow> (Inl (FsError c), logged ReadFile s)
      | None \<Rightarrow>
          (case profilesFile s of
             None \<Rightarrow> (Inl (FsError ''ENOENT''), logged ReadFile s)
           | Some f \<Rightarrow> (Inr (content f), logged ReadFile s)))"

definition fs_writeFile :: "timestamp \<Rightarrow> json_text \<Rightarrow> store \<Rightarrow> (store_error + unit) \<times> store" where
  "fs_writeFile t data s =
     (case writeFile_fault (faults s) of
        Some c \<Rightarrow> (Inl (FsError c), logged WriteFile s)
      | None \<Rightarrow>
          if dir_exists s
          then (Inr (), (logged WriteFile s)\<lparr>tempFile := Some \<lparr>content = data, mtime = t\<rparr>\<rparr>)
          else (Inl (FsError ''ENOENT''), logged WriteFile s))"

definition fs_rename :: "store \<Rightarrow> (store_error + unit) \<times> store" where
  "fs_rename s =
     (case rename_fault (faults s) of
        Some c \<Rightarrow> (Inl (FsError c), logged Rename s)
      | None \<Rightarrow>
          (case tempFile s of
             None \<Rightarrow> (Inl (FsError ''ENOENT''), logged Rename s)
           | Some f \<Rightarrow> (Inr (), (logged Rename s)\<lparr>profilesFile := Some f, tempFile := None\<rparr>)))"

subsection \<open>The cipher, the clock and the random source\<close>

text \<open>
  AES-256-CBC under the key of the process, from Node's \<open>crypto\<close> module, is a parameter:
  \<open>cipher_encrypt iv plaintext\<close> is the ciphertext in hex, and \<open>cipher_decrypt iv
  ciphertext\<close> the plaintext, or \<open>None\<close> where \<open>createDecipheriv\<close>, \<open>update\<close> or \<open>final\<close>
  throws. Initialization vectors are kept in their hex rendering.
\<close>

record cipher =
  cipher_encrypt :: "string \<Rightarrow> string \<Rightarrow> string"
  cipher_decrypt :: "string \<Rightarrow> string \<Rightarrow> string option"

text \<open>Decryption undoes encryption under the same initialization vector.\<close>

definition cipher_ok :: "cipher \<Rightarrow> bool" where
  "cipher_ok K = (\<forall>v x. cipher_decrypt K v (cipher_encrypt K v x) = Some x)"

text \<open>
  What one call of a store method reads from outside: \<open>now_iso\<close> is
  \<open>new Date().toISOString()\<close> in \<open>loadStorage\<close>; \<open>random_iv i\<close> and \<open>date_meta i\<close> are
  \<open>randomBytes(16)\<close> and \<open>new Date()\<close> in the \<open>i\<close>-th call of \<open>encryptProfile\<close>;
  \<open>mtime_written\<close> is the modification time the file system gives the file that
  \<open>writeFile\<close> writes (\<open>rename\<close> keeps it); \<open>now_saved\<close> is \<open>Date.now()\<close> at the end of
  \<open>saveProfiles\<close>; \<open>date_added\<close> is \<open>new Date()\<close> in \<open>add\<close>.
\<close>

record store_env =
  now_iso :: string
  random_iv :: "nat \<Rightarrow> string"
  date_meta :: "nat \<Rightarrow> timestamp"
  mtime_written :: timestamp
  now_saved :: timestamp
  date_added :: timestamp

subsection \<open>Validation, encryption, decryption\<close>

definition name_chars :: "char list" where
  "name_chars = ''abcdefghijklmnopqrstuvwxyzABCDEFGHIJKLMNOPQRSTUVWXYZ0123456789_-''"

definition startsWith :: "string \<Rightarrow> string \<Rightarrow> bool" where
  "startsWith s pre = (take (length pre) s = pre)"

text \<open>\<open>None\<close>: the profile passes. The checks and their order are the source's.\<close>

definition validateProfile :: "ConnectionProfile \<Rightarrow> store_error option" where
  "validateProfile p =
     (if name p = [] then Some NameRequired
      else if \<not> list_all (\<lambda>c. c \<in> set name_chars) (name p) then Some NameInvalid
      else if uri p = [] then Some UriRequired
      else if \<not> startsWith (uri p) ''mongodb://'' \<and> \<not> startsWith (uri p) ''mongodb+srv://''
        then Some UriScheme
      else None)"

definition empty_metadata :: ProfileMetadata where
  "empty_metadata = \<lparr>createdAt = None, lastUsed = None, lastTested = None,
     environment = None, description = None, isDefault = None\<rparr>"

text \<open>\<open>{...m}\<close> for a metadata object that may be undefined.\<close>

definition spread_metadata :: "ProfileMetadata option \<Rightarrow> ProfileMetadata" where
  "spread_metadata mo = (case mo of None \<Rightarrow> empty_metadata | Some m \<Rightarrow> m)"

definition encryptProfile :: "cipher \<Rightarrow> store_env \<Rightarrow> nat \<Rightarrow> ConnectionProfile \<Rightarrow> StoredProfile" where
  "encryptProfile K env i p =
     \<lparr>sp_name = name p,
      encryptedUri = cipher_encrypt K (random_iv env i) (uri p),
      sp_database = database p,
      sp_alias = profile_alias p,
      sp_tags = tags p,
      sp_options = options p,
      sp_metadata = Some (case metadata p of
                            Some m \<Rightarrow> m
                          | None \<Rightarrow> empty_metadata\<lparr>createdAt := Some (date_meta env i)\<rparr>),
      iv = random_iv env i\<rparr>"

definition decryptProfile :: "cipher \<Rightarrow> StoredProfile \<Rightarrow> ConnectionProfile option" where
  "decryptProfile K stored =
     (case cipher_decrypt K (iv stored) (encryptedUri stored) of
        None \<Rightarrow> None
      | Some decrypted \<Rightarrow>
          Some \<lparr>name = sp_name stored,
                uri = decrypted,
                database = sp_database stored,
                profile_alias = sp_alias stored,
                tags = sp_tags stored,
                options = sp_options stored,
                metadata = sp_metadata stored\<rparr>)"

text \<open>The loop of \<open>saveProfiles\<close> over \<open>profiles.values()\<close>.\<close>

definition encrypt_all :: "cipher \<Rightarrow> store_env \<Rightarrow> ConnectionProfile list \<Rightarrow> StoredProfile list" where
  "encrypt_all K env ps = map (\<lambda>(i, p). encryptProfile K env i p) (enumerate 0 ps)"

text \<open>The loop of \<open>loadProfiles\<close> over \<open>storage.profiles\<close>: a profile that fails to
  decrypt is skipped with a warning.\<close>

definition decrypt_step :: "cipher \<Rightarrow> (string, ConnectionProfile) jsmap \<Rightarrow> StoredProfile
    \<Rightarrow> (string, ConnectionProfile) jsmap" where
  "decrypt_step K acc stored =
     (case decryptProfile K stored of
        None \<Rightarrow> acc
      | Some p \<Rightarrow> map_set (name p) p acc)"

definition decrypt_all :: "cipher \<Rightarrow> StoredProfile list \<Rightarrow> (string, ConnectionProfile) jsmap" where
  "decrypt_all K storeds = foldl (decrypt_step K) [] storeds"

subsection \<open>\<open>loadStorage\<close>, \<open>loadProfiles\<close>, \<open>saveProfiles\<close>\<close>

text \<open>The container \<open>loadStorage\<close> returns when the file does not exist.\<close>

definition empty_storage :: "store_env \<Rightarrow> ProfileStorage" where
  "empty_storage env = \<lparr>profiles = [], defaultProfile = None, version = ''2.0.0'',
                          file_createdAt = now_iso env\<rparr>"

definition loadStorage :: "store_env \<Rightarrow> store \<Rightarrow> (store_error + ProfileStorage) \<times> store" where
  "loadStorage env s =
     (case fs_mkdir s of
        (Inl e, s1) \<Rightarrow> (Inl e, s1)
      | (Inr u, s1) \<Rightarrow>
          (case fs_readFile s1 of
             (Inr data, s2) \<Rightarrow>
               (case data of
                  Json storage \<Rightarrow> (Inr storage, s2)
                | Malformed \<Rightarrow> (Inl JsonSyntaxError, s2))
           | (Inl e, s2) \<Rightarrow>
               if e = FsError ''ENOENT''
               then (Inr (empty_storage env), s2)
               else (Inl e, s2)))"

text \<open>
  \<open>loadProfiles\<close> also tells which of its three returns was taken. With \<open>CacheHit\<close> and
  \<open>Reloaded\<close> the map returned is the very object held in \<open>cachedProfiles\<close>, so what the
  caller then does to it is done to the cache; with \<open>Missing\<close> it is a new empty map.
\<close>

datatype load_path = CacheHit | Reloaded | Missing

definition loadProfiles_catch :: "store_error \<Rightarrow> store
    \<Rightarrow> (store_error + (string, ConnectionProfile) jsmap \<times> load_path) \<times> store" where
  "loadProfiles_catch e s =
     (if e = FsError ''ENOENT'' then (Inr ([], Missing), s) else (Inl e, s))"

definition loadProfiles :: "cipher \<Rightarrow> store_env \<Rightarrow> store
    \<Rightarrow> (store_error + (string, ConnectionProfile) jsmap \<times> load_path) \<times> store" where
  "loadProfiles K env s =
     (case fs_stat s of
        (Inl e, s1) \<Rightarrow> loadProfiles_catch e s1
      | (Inr modified, s1) \<Rightarrow>
          if modified = lastModified s1 \<and> length (cachedProfiles s1) > 0
          then (Inr (cachedProfiles s1, CacheHit), s1)
          else
            (case loadStorage env s1 of
               (Inl e, s2) \<Rightarrow> loadProfiles_catch e s2
             | (Inr storage, s2) \<Rightarrow>
                 (let loaded = decrypt_all K (profiles storage)
                  in (Inr (loaded, Reloaded),
                      s2\<lparr>cachedProfiles := loaded, lastModified := modified\<rparr>))))"

definition saveProfiles :: "cipher \<Rightarrow> store_env \<Rightarrow> (string, ConnectionProfile) jsmap \<Rightarrow> store
    \<Rightarrow> (store_error + unit) \<times> store" where
  "saveProfiles K env m s =
     (case loadStorage env s of
        (Inl e, s1) \<Rightarrow> (Inl e, s1)
      | (Inr storage, s1) \<Rightarrow>
          (let newStorage = storage\<lparr>profiles := encrypt_all K env (map_values m)\<rparr>
           in (case fs_writeFile (mtime_written env) (Json newStorage) s1 of
                 (Inl e, s2) \<Rightarrow> (Inl e, s2)
               | (Inr u, s2) \<Rightarrow>
                   (case fs_rename s2 of
                      (Inl e, s3) \<Rightarrow> (Inl e, s3)
                    | (Inr u', s3) \<Rightarrow>
                        (Inr (), s3\<lparr>cachedProfiles := m, lastModified := now_saved env\<rparr>)))))"

text \<open>The map a method got from \<open>loadProfiles\<close> is changed in place before it is saved.\<close>

definition in_place :: "load_path \<Rightarrow> (string, ConnectionProfile) jsmap \<Rightarrow> store \<Rightarrow> store" where
  "in_place path m s = (if path = Missing then s else s\<lparr>cachedProfiles := m\<rparr>)"

subsection \<open>The public methods\<close>

definition list_profiles :: "cipher \<Rightarrow> store_env \<Rightarrow> store
    \<Rightarrow> (store_error + ConnectionProfile list) \<times> store" where
  "list_profiles K env s =
     (case loadProfiles K env s of
        (Inl e, s1) \<Rightarrow> (Inl e, s1)
      | (Inr (m, path), s1) \<Rightarrow> (Inr (map_values m), s1))"

definition get :: "cipher \<Rightarrow> store_env \<Rightarrow> string \<Rightarrow> store
    \<Rightarrow> (store_error + ConnectionProfile option) \<times> store" where
  "get K env n s =
     (case loadProfiles K env s of
        (Inl e, s1) \<Rightarrow> (Inl e, s1)
      | (Inr (m, path), s1) \<Rightarrow> (Inr (map_get m n), s1))"

text \<open>\<open>{...profile, metadata: {...profile.metadata, createdAt: new Date()}}\<close>\<close>

definition stamped :: "store_env \<Rightarrow> ConnectionProfile \<Rightarrow> ConnectionProfile" where
  "stamped env p = p\<lparr>metadata :=
      Some ((spread_metadata (metadata p))\<lparr>createdAt := Some (date_added env)\<rparr>)\<rparr>"

definition add :: "cipher \<Rightarrow> store_env \<Rightarrow> ConnectionProfile \<Rightarrow> store
    \<Rightarrow> (store_error + unit) \<times> store" where
  "add K env p s =
     (case validateProfile p of
        Some e \<Rightarrow> (Inl e, s)
      | None \<Rightarrow>
          (case loadProfiles K env s of
             (Inl e, s1) \<Rightarrow> (Inl e, s1)
           | (Inr (m, path), s1) \<Rightarrow>
               if map_has m (name p) then (Inl (DuplicateName (name p)), s1)
               else
                 (let m' = map_set (name p) (stamped env p) m
                  in saveProfiles K env m' (in_place path m' s1))))"

definition remove :: "cipher \<Rightarrow> store_env \<Rightarrow> string \<Rightarrow> store
    \<Rightarrow> (store_error + bool) \<times> store" where
  "remove K env n s =
     (case loadProfiles K env s of
        (Inl e, s1) \<Rightarrow> (Inl e, s1)
      | (Inr (m, path), s1) \<Rightarrow>
          (case map_delete n m of
             (existed, m') \<Rightarrow>
               if existed
               then (case saveProfiles K env m' (in_place path m' s1) of
                       (Inl e, s2) \<Rightarrow> (Inl e, s2)
                     | (Inr u, s2) \<Rightarrow> (Inr True, s2))
               else (Inr False, in_place path m' s1)))"

text \<open>
  A \<open>Partial\<close> object: each property is absent (\<open>Keep\<close>) or present with a value (\<open>Set\<close>;
  for an optional property the value may be \<open>undefined\<close>, that is \<open>Set None\<close>). The
  \<open>name\<close> of an update is overridden by the method and so is not represented; a \<open>uri\<close>
  set to \<open>undefined\<close> fails validation as the empty string does and is written \<open>Set []\<close>.
\<close>

datatype 'a upd = Keep | Set 'a

fun apply_upd :: "'a upd \<Rightarrow> 'a \<Rightarrow> 'a" where
  "apply_upd Keep old = old"
| "apply_upd (Set v) old = v"

record MetadataUpdates =
  createdAt_u :: "timestamp option upd"
  lastUsed_u :: "timestamp option upd"
  lastTested_u :: "timestamp option upd"
  environment_u :: "string option upd"
  description_u :: "string option upd"
  isDefault_u :: "bool option upd"

record ProfileUpdates =
  uri_u :: "string upd"
  database_u :: "string option upd"
  alias_u :: "string option upd"
  tags_u :: "string list option upd"
  options_u :: "MongoConnectionOptions option upd"
  metadata_u :: "MetadataUpdates option"

text \<open>\<open>{...existing.metadata, ...updates.metadata}\<close>\<close>

definition merge_metadata :: "ProfileMetadata option \<Rightarrow> MetadataUpdates option \<Rightarrow> ProfileMetadata" where
  "merge_metadata existing updates =
     (let base = spread_metadata existing
      in (case updates of
            None \<Rightarrow> base
          | Some u \<Rightarrow>
              \<lparr>createdAt = apply_upd (createdAt_u u) (createdAt base),
               lastUsed = apply_upd (lastUsed_u u) (lastUsed base),
               lastTested = apply_upd (lastTested_u u) (lastTested base),
               environment = apply_upd (environment_u u) (environment base),
               description = apply_upd (description_u u) (description base),
               isDefault = apply_upd (isDefault_u u) (isDefault base)\<rparr>))"

definition merge_profile :: "string \<Rightarrow> ConnectionProfile \<Rightarrow> ProfileUpdates \<Rightarrow> ConnectionProfile" where
  "merge_profile n existing updates =
     \<lparr>name = n,
      uri = apply_upd (uri_u updates) (uri existing),
      database = apply_upd (database_u updates) (database existing),
      profile_alias = apply_upd (alias_u updates) (profile_alias existing),
      tags = apply_upd (tags_u updates) (tags existing),
      options = apply_upd (options_u updates) (options existing),
      metadata = Some (merge_metadata (metadata existing) (metadata_u updates))\<rparr>"

definition update :: "cipher \<Rightarrow> store_env \<Rightarrow> string \<Rightarrow> ProfileUpdates \<Rightarrow> store
    \<Rightarrow> (store_error + bool) \<times> store" where
  "update K env n updates s =
     (case loadProfiles K env s of
        (Inl e, s1) \<Rightarrow> (Inl e, s1)
      | (Inr (m, path), s1) \<Rightarrow>
          (case map_get m n of
             None \<Rightarrow> (Inr False, s1)
           | Some existing \<Rightarrow>
               (let updated = merge_profile n existing updates
                in (case validateProfile updated of
                      Some e \<Rightarrow> (Inl e, s1)
                    | None \<Rightarrow>
                        (let m' = map_set n updated m
                         in (case saveProfiles K env m' (in_place path m' s1) of
                               (Inl e, s2) \<Rightarrow> (Inl e, s2)
                             | (Inr u, s2) \<Rightarrow> (Inr True, s2)))))))"

text \<open>\<open>prof.metadata?.isDefault\<close> is truthy.\<close>

definition is_default :: "ConnectionProfile \<Rightarrow> bool" where
  "is_default p = (case metadata p of None \<Rightarrow> False | Some m \<Rightarrow> isDefault m = Some True)"

text \<open>
  The first loop of \<open>setDefault\<close>: every entry whose profile is the default has its value
  replaced, under its own key and so in place, by a copy with \<open>isDefault: false\<close>.
\<close>

definition clear_default :: "ConnectionProfile \<Rightarrow> ConnectionProfile" where
  "clear_default prof =
     (if is_default prof
      then prof\<lparr>metadata := Some ((spread_metadata (metadata prof))\<lparr>isDefault := Some False\<rparr>)\<rparr>
      else prof)"

definition clear_defaults :: "(string, ConnectionProfile) jsmap \<Rightarrow> (string, ConnectionProfile) jsmap" where
  "clear_defaults m = map (\<lambda>(key, prof). (key, clear_default prof)) m"

text \<open>\<open>{...profile, metadata: {...profile.metadata, isDefault: true}}\<close>\<close>

definition defaulted :: "ConnectionProfile \<Rightarrow> ConnectionProfile" where
  "defaulted p = p\<lparr>metadata := Some ((spread_metadata (metadata p))\<lparr>isDefault := Some True\<rparr>)\<rparr>"

definition setDefault :: "cipher \<Rightarrow> store_env \<Rightarrow> string \<Rightarrow> store
    \<Rightarrow> (store_error + bool) \<times> store" where
  "setDefault K env n s =
     (case loadProfiles K env s of
        (Inl e, s1) \<Rightarrow> (Inl e, s1)
      | (Inr (m, path), s1) \<Rightarrow>
          (case map_get m n of
             None \<Rightarrow> (Inr False, s1)
           | Some p \<Rightarrow>
               (let m' = map_set n (defaulted p) (clear_defaults m)
                in (case saveProfiles K env m' (in_place path m' s1) of
                      (Inl e, s2) \<Rightarrow> (Inl e, s2)
                    | (Inr u, s2) \<Rightarrow> (Inr True, s2)))))"

definition getDefault :: "cipher \<Rightarrow> store_env \<Rightarrow> store
    \<Rightarrow> (store_error + ConnectionProfile option) \<times> store" where
  "getDefault K env s =
     (case loadProfiles K env s of
        (Inl e, s1) \<Rightarrow> (Inl e, s1)
      | (Inr (m, path), s1) \<Rightarrow> (Inr (find is_default (map_values m)), s1))"

definition export_profiles :: "store_env \<Rightarrow> store \<Rightarrow> (store_error + json_text) \<times> store" where
  "export_profiles env s =
     (case loadStorage env s of
        (Inl e, s1) \<Rightarrow> (Inl e, s1)
      | (Inr storage, s1) \<Rightarrow> (Inr (Json storage), s1))"

text \<open>
  The loop of \<open>import\<close>: an entry that fails to decrypt, or whose \<open>add\<close> throws, is
  skipped; what the failed \<open>add\<close> did to the store stays done. \<open>envs i\<close> is what the
  \<open>add\<close> of the \<open>i\<close>-th entry reads from outside.
\<close>

fun import_loop :: "cipher \<Rightarrow> (nat \<Rightarrow> store_env) \<Rightarrow> nat \<Rightarrow> StoredProfile list \<Rightarrow> nat \<Rightarrow> store
    \<Rightarrow> nat \<times> store" where
  "import_loop K envs i [] importCount s = (importCount, s)"
| "import_loop K envs i (stored # rest) importCount s =
     (case decryptProfile K stored of
        None \<Rightarrow> import_loop K envs (i + 1) rest importCount s
      | Some p \<Rightarrow>
          (case add K (envs i) p s of
             (Inr u, s1) \<Rightarrow> import_loop K envs (i + 1) rest (importCount + 1) s1
           | (Inl e, s1) \<Rightarrow> import_loop K envs (i + 1) rest importCount s1))"

definition import_profiles :: "cipher \<Rightarrow> (nat \<Rightarrow> store_env) \<Rightarrow> json_text \<Rightarrow> store
    \<Rightarrow> (store_error + nat) \<times> store" where
  "import_profiles K envs data s =
     (case data of
        Malformed \<Rightarrow> (Inl (InvalidImportData JsonSyntaxError), s)
      | Json imported \<Rightarrow>
          (case import_loop K envs 0 (profiles imported) 0 s of
             (importCount, s1) \<Rightarrow> (Inr importCount, s1)))"

section \<open>Vocabulary of the statements\<close>

text \<open>
  \<open>loadStorage\<close> in closed form: the state it leaves and the result it returns, as
  functions of the state it starts from (lemma \<open>loadStorage_eq\<close> below).
\<close>

definition after_loadStorage :: "store \<Rightarrow> store" where
  "after_loadStorage s =
     (if mkdir_fault (faults s) = None
      then logged ReadFile ((logged Mkdir s)\<lparr>dir_exists := True\<rparr>)
      else logged Mkdir s)"

definition loadStorage_result :: "store_env \<Rightarrow> store \<Rightarrow> store_error + ProfileStorage" where
  "loadStorage_result env s =
     (case mkdir_fault (faults s) of
        Some c \<Rightarrow> Inl (FsError c)
      | None \<Rightarrow>
         (case readFile_fault (faults s) of
            Some c \<Rightarrow> (if c = ''ENOENT'' then Inr (empty_storage env) else Inl (FsError c))
          | None \<Rightarrow>
             (case profilesFile s of
                None \<Rightarrow> Inr (empty_storage env)
              | Some f \<Rightarrow> (case content f of Json st \<Rightarrow> Inr st | Malformed \<Rightarrow> Inl JsonSyntaxError))))"

text \<open>The file \<open>saveProfiles\<close> writes for the map \<open>m\<close> over the container \<open>st\<close> it loaded.\<close>

definition written :: "cipher \<Rightarrow> store_env \<Rightarrow> (string, ConnectionProfile) jsmap \<Rightarrow> ProfileStorage \<Rightarrow> fs_file" where
  "written K env m st =
     \<lparr>content = Json (st\<lparr>profiles := encrypt_all K env (map_values m)\<rparr>), mtime = mtime_written env\<rparr>"

text \<open>The backing file is absent or holds text that \<open>JSON.parse\<close> accepts.\<close>

definition parseable :: "store \<Rightarrow> bool" where
  "parseable s = (case profilesFile s of None \<Rightarrow> True | Some f \<Rightarrow> content f \<noteq> Malformed)"

text \<open>The four mutating methods, as one dispatcher; \<open>add\<close> returns nothing, which counts
  as true.\<close>

datatype mutation = Add ConnectionProfile | Remove string | Update string ProfileUpdates | SetDefault string

fun run_mutation :: "cipher \<Rightarrow> store_env \<Rightarrow> mutation \<Rightarrow> store \<Rightarrow> (store_error + bool) \<times> store" where
  "run_mutation K env (Add p) s =
     (case add K env p s of (Inl e, s') \<Rightarrow> (Inl e, s') | (Inr u, s') \<Rightarrow> (Inr True, s'))"
| "run_mutation K env (Remove n) s = remove K env n s"
| "run_mutation K env (Update n updates) s = update K env n updates s"
| "run_mutation K env (SetDefault n) s = setDefault K env n s"

text \<open>
  The entries flagged as default; a map whose only flagged entry has key \<open>n\<close>; the flag as
  it stands in a stored profile; and a map with at most one flagged entry.
\<close>

definition default_entries :: "(string, ConnectionProfile) jsmap \<Rightarrow> (string \<times> ConnectionProfile) list" where
  "default_entries m = filter (\<lambda>kv. is_default (snd kv)) m"

definition only_default :: "string \<Rightarrow> (string, ConnectionProfile) jsmap \<Rightarrow> bool" where
  "only_default n m = (case default_entries m of [kv] \<Rightarrow> fst kv = n | _ \<Rightarrow> False)"

definition stored_is_default :: "StoredProfile \<Rightarrow> bool" where
  "stored_is_default sp = (case sp_metadata sp of None \<Rightarrow> False | Some md \<Rightarrow> isDefault md = Some True)"

definition at_most_one_default :: "(string, ConnectionProfile) jsmap \<Rightarrow> bool" where
  "at_most_one_default m = (length (default_entries m) \<le> 1)"

text \<open>
  What a reload would decrypt from the file, and the invariant of the two views of the
  store: at most one flagged entry in the cache and in what the file holds.
\<close>

definition disk_view :: "cipher \<Rightarrow> store \<Rightarrow> (string, ConnectionProfile) jsmap" where
  "disk_view K s =
     (case profilesFile s of
        None \<Rightarrow> []
      | Some f \<Rightarrow> (case content f of Json st \<Rightarrow> decrypt_all K (profiles st) | Malformed \<Rightarrow> []))"

definition store_inv :: "cipher \<Rightarrow> store \<Rightarrow> bool" where
  "store_inv K s = (at_most_one_default (cachedProfiles s) \<and> at_most_one_default (disk_view K s))"

text \<open>An update that sets \<open>metadata.isDefault\<close> to true; an import whose container holds
  a stored profile flagged as default.\<close>

definition sets_default :: "ProfileUpdates \<Rightarrow> bool" where
  "sets_default u = (case metadata_u u of None \<Rightarrow> False | Some mu \<Rightarrow> isDefault_u mu = Set (Some True))"

definition imports_default :: "json_text \<Rightarrow> bool" where
  "imports_default data =
     (case data of Malformed \<Rightarrow> False | Json st \<Rightarrow> list_ex stored_is_default (profiles st))"

section \<open>Concrete inputs used by the closed theorems\<close>

text \<open>
  A profile for a local server and one for a staging cluster; a toy cipher that prefixes
  the initialization vector, whose decryption undoes its encryption; the answers of the
  driver, the clock and the file system in the runs that the closed theorems evaluate;
  and the states those runs reach.
\<close>

definition local_profile :: ConnectionProfile where
  "local_profile = \<lparr>name = ''local'', uri = ''mongodb://localhost:27017'', database = None,
     profile_alias = None, tags = None, options = None, metadata = None\<rparr>"

definition clock0 :: test_clock where
  "clock0 = \<lparr>now_start = 1000, now_ok = 1007, date_ok = 1007, now_caught = 1012, date_caught = 1012\<rparr>"

definition refused_run :: driver_run where
  "refused_run = \<lparr>ctor = None, conn = Some (JsError ''connect ECONNREFUSED 127.0.0.1:27017''),
     admin = Inl (JsError ''unreachable''), closing = None\<rparr>"





definition health_env0 :: health_env where
  "health_env0 = \<lparr>date_check = 2000, probe_clock = clock0, probe_run = refused_run, now_cached = 2012\<rparr>"

definition pooled_local :: PooledConnection where
  "pooled_local = \<lparr>client = 1, profile = local_profile, conn_lastUsed = 900,
     healthCache = None, healthCacheExpiry = None\<rparr>"

definition manager_with_local :: manager where
  "manager_with_local = new_manager\<lparr>connections := [(''local'', pooled_local)]\<rparr>"

definition env_up :: "timestamp \<Rightarrow> connect_env" where
  "env_up t = \<lparr>ping_ok = True, dial = None, new_client = 1, date_reuse = t, date_breaker = t,
     date_created = t + 5, date_failure = t + 5, now_failure = t + 5\<rparr>"

definition env_down :: "timestamp \<Rightarrow> connect_env" where
  "env_down t = \<lparr>ping_ok = False, dial = Some (JsError ''connect ECONNREFUSED 127.0.0.1:27017''),
     new_client = 2, date_reuse = t, date_breaker = t,
     date_created = t + 5, date_failure = t + 5, now_failure = t + 5\<rparr>"

text \<open>The server answers a new client while the pooled client no longer answers.\<close>

definition env_stale :: "timestamp \<Rightarrow> connect_env" where
  "env_stale t = \<lparr>ping_ok = False, dial = None, new_client = 3, date_reuse = t, date_breaker = t,
     date_created = t + 5, date_failure = t + 5, now_failure = t + 5\<rparr>"

definition three_failures :: "manager \<Rightarrow> manager" where
  "three_failures M =
     snd (connect (env_down 3000) local_profile
       (snd (connect (env_down 2000) local_profile
         (snd (connect (env_down 1000) local_profile M)))))"

definition tripped_manager :: manager where
  "tripped_manager = three_failures new_manager"

definition tripped_pooled_manager :: manager where
  "tripped_pooled_manager = three_failures (snd (connect (env_up 500) local_profile new_manager))"

definition toy_cipher :: cipher where
  "toy_cipher = \<lparr>cipher_encrypt = (\<lambda>v x. v @ x),
     cipher_decrypt = (\<lambda>v c. if take (length v) c = v then Some (drop (length v) c) else None)\<rparr>"

definition env0 :: store_env where
  "env0 = \<lparr>now_iso = ''2024-05-01T10:00:00.000Z'', random_iv = (\<lambda>i. ''00112233445566778899aabbccddeeff''),
     date_meta = (\<lambda>i. 1000), mtime_written = 1000, now_saved = 1001, date_added = 999\<rparr>"

definition store_with_local :: store where
  "store_with_local = snd (add toy_cipher env0 local_profile fresh_store)"

definition denied_store :: store where
  "denied_store = fresh_store\<lparr>faults := no_faults\<lparr>stat_fault := Some ''EACCES''\<rparr>\<rparr>"

definition unreadable_store :: store where
  "unreadable_store = store_with_local\<lparr>faults := no_faults\<lparr>readFile_fault := Some ''EIO''\<rparr>\<rparr>"

definition local_file :: fs_file where
  "local_file = \<lparr>content = Json \<lparr>profiles = [encryptProfile toy_cipher env0 0 (stamped env0 local_profile)],
                               defaultProfile = None, version = ''2.0.0'',
                               file_createdAt = now_iso env0\<rparr>,
                             mtime = 1000\<rparr>"

text \<open>A new store object over the file that \<open>store_with_local\<close> has written.\<close>

definition reopened_store :: store where
  "reopened_store = fresh_store\<lparr>dir_exists := True, profilesFile := Some local_file\<rparr>"

definition reloaded_local :: store where
  "reloaded_local = store_with_local\<lparr>fs_log := fs_log store_with_local @ [Stat, Mkdir, ReadFile],
        lastModified := 1000\<rparr>"

definition env1 :: store_env where
  "env1 = env0\<lparr>mtime_written := 2000, now_saved := 2000\<rparr>"

definition emptied_store :: store where
  "emptied_store = snd (remove toy_cipher env1 ''local'' store_with_local)"

definition defaulted_store :: store where
  "defaulted_store = snd (setDefault toy_cipher env1 ''local'' store_with_local)"

definition local_storage :: ProfileStorage where
  "local_storage = \<lparr>profiles = [encryptProfile toy_cipher env0 0 (stamped env0 local_profile)],
     defaultProfile = None, version = ''2.0.0'', file_createdAt = now_iso env0\<rparr>"

definition staging_profile :: ConnectionProfile where
  "staging_profile = local_profile\<lparr>name := ''staging'', uri := ''mongodb+srv://staging.example.net''\<rparr>"

definition two_map :: "(string, ConnectionProfile) jsmap" where
  "two_map = [(''local'', stamped env0 local_profile), (''staging'', stamped env1 staging_profile)]"

definition two_store :: store where
  "two_store = snd (add toy_cipher env1 staging_profile store_with_local)"

definition store_a :: store where
  "store_a = snd (setDefault toy_cipher env1 ''local'' two_store)"

definition store_b :: store where
  "store_b = snd (setDefault toy_cipher env1 ''staging'' store_a)"

definition map_a :: "(string, ConnectionProfile) jsmap" where
  "map_a = [(''local'', defaulted (stamped env0 local_profile)),
            (''staging'', stamped env1 staging_profile)]"

definition map_b :: "(string, ConnectionProfile) jsmap" where
  "map_b = [(''local'', clear_default (defaulted (stamped env0 local_profile))),
            (''staging'', defaulted (stamped env1 staging_profile))]"

definition default_local :: ConnectionProfile where
  "default_local = local_profile\<lparr>metadata := Some (empty_metadata\<lparr>isDefault := Some True\<rparr>)\<rparr>"

definition default_staging :: ConnectionProfile where
  "default_staging = staging_profile\<lparr>metadata := Some (empty_metadata\<lparr>isDefault := Some True\<rparr>)\<rparr>"

definition one_default_store :: store where
  "one_default_store = snd (add toy_cipher env1 default_local fresh_store)"

definition two_default_store :: store where
  "two_default_store = snd (add toy_cipher env1 default_staging one_default_store)"

definition database_update :: ProfileUpdates where
  "database_update = \<lparr>uri_u = Keep, database_u = Set (Some ''admin''), alias_u = Keep, tags_u = Keep,
     options_u = Keep, metadata_u = None\<rparr>"

section \<open>Properties of the connection manager\<close>






lemma getHealth_not_pooled:
  "map_get (connections M) n = None \<Longrightarrow> getHealth env n M = (Inr None, M)"
  by (simp add: getHealth_def)

lemma listConnections_tasks_dom:
  "dom (fst (listConnections_tasks envs ns results M)) \<subseteq> dom results \<union> set ns"
proof (induction ns arbitrary: results M)
  case Nil
  show ?case by simp
next
  case (Cons n ns)
  obtain r M' where g: "getHealth (envs n) n M = (r, M')"
    by (cases "getHealth (envs n) n M")
  show ?case
  proof (cases r)
    case (Inl e)
    with g Cons.IH [of results M'] show ?thesis by auto
  next
    case (Inr ho)
    show ?thesis
    proof (cases ho)
      case None
      with g Inr Cons.IH [of results M'] show ?thesis by auto
    next
      case (Some h)
      with g Inr have step: "listConnections_tasks envs (n # ns) results M =
          listConnections_tasks envs ns (results(n \<mapsto> h)) M'"
        by simp
      have "dom (fst (listConnections_tasks envs ns (results(n \<mapsto> h)) M'))
          \<subseteq> dom (results(n \<mapsto> h)) \<union> set ns"
        by (rule Cons.IH)
      also have "dom (results(n \<mapsto> h)) \<union> set ns = dom results \<union> set (n # ns)"
        by simp
      finally show ?thesis
        by (simp only: step)
    qed
  qed
qed

text \<open>
  Claim C10: when no pooled connection exists for a name, \<open>getHealth\<close> returns null and
  leaves the manager as it was, its log of driver requests included, so nothing was
  opened or tested; and every name \<open>listConnections\<close> reports is a key of the pool.
\<close>

theorem getHealth_null_when_not_pooled:
  "(map_get (connections M) n = None \<longrightarrow> getHealth env n M = (Inr None, M)) \<and>
   dom (fst (listConnections envs M)) \<subseteq> set (map_keys (connections M))"
  using listConnections_tasks_dom [of envs "map_keys (connections M)" Map.empty M]
  by (simp add: getHealth_not_pooled listConnections_def)

theorem getHealth_null_when_not_pooled_witness:
  "map_get (connections manager_with_local) ''staging'' = None \<and>
   getHealth health_env0 ''staging'' manager_with_local = (Inr None, manager_with_local) \<and>
   dom (fst (listConnections (\<lambda>n. health_env0) manager_with_local)) \<subseteq> {''local''}"
proof -
  have a: "map_get (connections manager_with_local) ''staging'' = None"
    by (simp add: map_get_def manager_with_local_def new_manager_def)
  have k: "set (map_keys (connections manager_with_local)) = {''local''}"
    by (simp add: map_keys_def manager_with_local_def new_manager_def)
  from getHealth_null_when_not_pooled
    [of manager_with_local "''staging''" health_env0 "\<lambda>n. health_env0"] a k
  show ?thesis by simp
qed

subsection \<open>The circuit breaker\<close>

lemma connect_fresh_rejects:
  "breaker_open_until M (name p) t \<Longrightarrow> date_breaker e \<le> t \<Longrightarrow>
   connect_fresh e p M = (Inl (Disabled (name p)), M)"
  by (auto simp: connect_fresh_def connect_attempt_def isCircuitBreakerOpen_def
      breaker_open_until_def
      split: option.splits)

lemma connect_fresh_thrown:
  "connect_fresh e p M = (Inl (Thrown x), M') \<Longrightarrow>
   (\<exists>b. circuitBreakers M' (name p) = Some b \<and>
        failures b = (case circuitBreakers M (name p) of None \<Rightarrow> 1 | Some b0 \<Rightarrow> failures b0 + 1) \<and>
        (maxFailures \<le> failures b \<longrightarrow> state b = Open \<and> nextAttempt b = Some (now_failure e + circuitBreakerTimeout)))"
  by (auto simp: connect_fresh_def connect_attempt_def isCircuitBreakerOpen_def
      createConnection_def recordFailure_def Let_def
      split: option.splits if_splits)

lemma connect_unfold:
  "connect e p M =
     (case map_get (connections M) (name p) of
        None \<Rightarrow> connect_fresh e p M
      | Some c \<Rightarrow>
          if ping_ok e
          then (Inr (), M\<lparr>net_log := net_log M @ [Ping (name (profile c))],
                  connections := map_set (name p) (c\<lparr>conn_lastUsed := date_reuse e\<rparr>) (connections M)\<rparr>)
          else connect_fresh e p (M\<lparr>net_log := net_log M @ [Ping (name (profile c))]\<rparr>))"
  by (simp add: connect_def isConnectionHealthy_def split: option.splits)

lemma connect_thrown:
  assumes "connect e p M = (Inl (Thrown x), M')"
  shows "\<exists>b. circuitBreakers M' (name p) = Some b \<and>
        failures b = (case circuitBreakers M (name p) of None \<Rightarrow> 1 | Some b0 \<Rightarrow> failures b0 + 1) \<and>
        (maxFailures \<le> failures b \<longrightarrow> state b = Open \<and> nextAttempt b = Some (now_failure e + circuitBreakerTimeout))"
proof (cases "map_get (connections M) (name p)")
  case None
  with assms have "connect_fresh e p M = (Inl (Thrown x), M')"
    by (simp add: connect_unfold)
  then show ?thesis
    by (rule connect_fresh_thrown)
next
  case (Some c)
  with assms have "connect_fresh e p (M\<lparr>net_log := net_log M @ [Ping (name (profile c))]\<rparr>)
      = (Inl (Thrown x), M')"
    by (simp add: connect_unfold split: if_splits)
  from connect_fresh_thrown [OF this] show ?thesis
    by simp
qed

lemma three_failures_open:
  assumes "connect ea p M = (Inl (Thrown xa), Ma)"
    and "connect eb p Ma = (Inl (Thrown xb), Mb)"
    and "connect ec p Mb = (Inl (Thrown xc), Mc)"
  shows "breaker_open_until Mc (name p) (now_failure ec + circuitBreakerTimeout)"
proof -
  from connect_thrown [OF assms(1)] obtain b1 where
    b1: "circuitBreakers Ma (name p) = Some b1" "1 \<le> failures b1"
    by (auto split: option.splits)
  from connect_thrown [OF assms(2)] b1 obtain b2 where
    b2: "circuitBreakers Mb (name p) = Some b2" "2 \<le> failures b2"
    by auto
  from connect_thrown [OF assms(3)] b2 obtain b3 where
    b3: "circuitBreakers Mc (name p) = Some b3" "3 \<le> failures b3"
      "maxFailures \<le> failures b3 \<longrightarrow> state b3 = Open \<and> nextAttempt b3 = Some (now_failure ec + circuitBreakerTimeout)"
    by auto
  then show ?thesis
    by (simp add: breaker_open_until_def maxFailures_def)
qed

lemma half_open_attempt:
  assumes "breaker_open_until M (name p) t" "t < date_breaker e"
  shows "net_log (snd (connect_fresh e p M)) = net_log M @ [Dial (name p)] \<and>
       (case dial e of
          None \<Rightarrow> fst (connect_fresh e p M) = Inr () \<and>
                  circuitBreakers (snd (connect_fresh e p M)) (name p) = None
        | Some x \<Rightarrow> fst (connect_fresh e p M) = Inl (Thrown x) \<and>
                  breaker_open_until (snd (connect_fresh e p M)) (name p)
                    (now_failure e + circuitBreakerTimeout))"
  using assms
  by (auto simp: connect_fresh_def connect_attempt_def isCircuitBreakerOpen_def
      createConnection_def recordFailure_def
      resetCircuitBreaker_def breaker_open_until_def Let_def
      split: option.splits if_splits)

lemma isCircuitBreakerOpen_half:
  "breaker_open_until M n t \<Longrightarrow> t < now \<Longrightarrow>
   isCircuitBreakerOpen now n M = (False, half_opened n M)"
  by (auto simp: isCircuitBreakerOpen_def breaker_open_until_def half_opened_def
      split: option.splits)

lemma half_opened_state:
  "breaker_open_until M n t \<Longrightarrow>
   \<exists>b. circuitBreakers (half_opened n M) n = Some b \<and> state b = HalfOpen"
  by (auto simp: breaker_open_until_def half_opened_def split: option.splits)

lemma connect_fresh_half:
  "breaker_open_until M (name p) t \<Longrightarrow> t < date_breaker e \<Longrightarrow>
   connect_fresh e p M = connect_attempt e p (half_opened (name p) M)"
  by (simp add: connect_fresh_def isCircuitBreakerOpen_half)

lemma connect_fresh_success:
  "connect_fresh e p M = (Inr u, M') \<Longrightarrow> circuitBreakers M' (name p) = None"
  by (auto simp: connect_fresh_def connect_attempt_def isCircuitBreakerOpen_def
      createConnection_def
      resetCircuitBreaker_def Let_def
      split: option.splits if_splits)



lemmas demo_defs = three_failures_def connect_unfold connect_fresh_def connect_attempt_def
  isCircuitBreakerOpen_def
  createConnection_def recordFailure_def resetCircuitBreaker_def breaker_open_until_def
  env_up_def env_down_def local_profile_def new_manager_def map_get_def
  maxFailures_def circuitBreakerTimeout_def Let_def

lemma tripped_manager_eq:
  "tripped_manager = \<lparr>connections = [],
     circuitBreakers = [''local'' \<mapsto> \<lparr>failures = 3, lastFailure = Some 3005, state = Open, nextAttempt = Some 63005\<rparr>],
     net_log = [Dial ''local'', Dial ''local'', Dial ''local'']\<rparr>"
  by (simp add: tripped_manager_def demo_defs eval_nat_numeral)

lemma tripped_pooled_manager_eq:
  "tripped_pooled_manager = \<lparr>connections = [(''local'', \<lparr>client = 1, profile = local_profile, conn_lastUsed = 505,
        healthCache = None, healthCacheExpiry = None\<rparr>)],
     circuitBreakers = [''local'' \<mapsto> \<lparr>failures = 3, lastFailure = Some 3005, state = Open, nextAttempt = Some 63005\<rparr>],
     net_log = [Dial ''local'', Ping ''local'', Dial ''local'', Ping ''local'', Dial ''local'', Ping ''local'', Dial ''local'']\<rparr>"
  by (simp add: tripped_pooled_manager_def demo_defs eval_nat_numeral)

text \<open>
  Claim C3, as stated, has every \<open>connect\<close> fail at once, with no network attempt, while
  the breaker of the name is open. \<open>connect\<close> looks at the pool before it looks at the
  breaker: after one successful connection and three failed ones the breaker is open
  and the pooled connection is still there; the next \<open>connect\<close>, well before the scheduled
  time, pings the pooled client and, the ping answering, succeeds.
\<close>

theorem open_breaker_pooled_counterexample:
  "breaker_open_until tripped_pooled_manager ''local'' 63005 \<and>
   date_breaker (env_up 4000) < 63005 \<and>
   fst (connect (env_up 4000) local_profile tripped_pooled_manager) = Inr () \<and>
   net_log (snd (connect (env_up 4000) local_profile tripped_pooled_manager)) =
     net_log tripped_pooled_manager @ [Ping ''local'']"
  by (simp add: tripped_pooled_manager_eq) (simp add: demo_defs)

text \<open>
  Claim C3, amended. Three \<open>connect\<close> calls in a row that fail in the driver leave the
  breaker of the name open, the next attempt scheduled 60 seconds after the third
  failure was recorded. While it is open and the scheduled time has not passed, a
  \<open>connect\<close> for a name with no pooled connection fails with the temporarily-disabled
  error and leaves the manager, its log of driver requests included, as it was; with a
  pooled connection whose liveness ping fails it fails with the same error after that one
  ping. Once the scheduled time has passed, the check of the breaker sets its state to
  half-open and lets the call through, and a \<open>connect\<close> for a name with no pooled
  connection, or with a pooled connection whose ping fails, makes one real attempt from
  that half-open state (after the ping, when there is a pooled connection): if it fails
  the breaker is open again for another 60 seconds (so the calls that follow are rejected
  again), if it succeeds the record is removed. A \<open>connect\<close> that succeeds by opening a
  connection removes the breaker record, whatever its state.
\<close>

theorem circuit_breaker_behaviour:
  "(connect ea p M = (Inl (Thrown xa), Ma) \<longrightarrow>
    connect eb p Ma = (Inl (Thrown xb), Mb) \<longrightarrow>
    connect ec p Mb = (Inl (Thrown xc), Mc) \<longrightarrow>
      breaker_open_until Mc (name p) (now_failure ec + 60000)) \<and>
   (breaker_open_until M (name p) t \<and> date_breaker e \<le> t \<longrightarrow>
      (map_get (connections M) (name p) = None \<longrightarrow>
         connect e p M = (Inl (Disabled (name p)), M)) \<and>
      (\<forall>c. map_get (connections M) (name p) = Some c \<and> \<not> ping_ok e \<longrightarrow>
         connect e p M =
           (Inl (Disabled (name p)), M\<lparr>net_log := net_log M @ [Ping (name (profile c))]\<rparr>))) \<and>
   (breaker_open_until M (name p) t \<and> t < date_breaker e \<longrightarrow>
      isCircuitBreakerOpen (date_breaker e) (name p) M = (False, half_opened (name p) M) \<and>
      (\<exists>b. circuitBreakers (half_opened (name p) M) (name p) = Some b \<and> state b = HalfOpen) \<and>
      (map_get (connections M) (name p) = None \<longrightarrow>
         connect e p M = connect_attempt e p (half_opened (name p) M) \<and>
         net_log (snd (connect e p M)) = net_log M @ [Dial (name p)]) \<and>
      (\<forall>c. map_get (connections M) (name p) = Some c \<and> \<not> ping_ok e \<longrightarrow>
         connect e p M =
           connect_attempt e p
             (half_opened (name p) (M\<lparr>net_log := net_log M @ [Ping (name (profile c))]\<rparr>)) \<and>
         net_log (snd (connect e p M)) =
           net_log M @ [Ping (name (profile c)), Dial (name p)]) \<and>
      (map_get (connections M) (name p) = None \<or> \<not> ping_ok e \<longrightarrow>
         (case dial e of
            None \<Rightarrow> fst (connect e p M) = Inr () \<and>
                    circuitBreakers (snd (connect e p M)) (name p) = None
          | Some x \<Rightarrow> fst (connect e p M) = Inl (Thrown x) \<and>
                    breaker_open_until (snd (connect e p M)) (name p) (now_failure e + 60000)))) \<and>
   (connect e p M = (Inr (), M') \<and>
    (map_get (connections M) (name p) = None \<or> \<not> ping_ok e) \<longrightarrow>
      circuitBreakers M' (name p) = None)"
proof (intro conjI impI allI)
  assume "connect ea p M = (Inl (Thrown xa), Ma)" "connect eb p Ma = (Inl (Thrown xb), Mb)"
    "connect ec p Mb = (Inl (Thrown xc), Mc)"
  then show "breaker_open_until Mc (name p) (now_failure ec + 60000)"
    using three_failures_open [of ea p M xa Ma eb xb Mb ec xc Mc]
    by (simp add: circuitBreakerTimeout_def)
next
  assume "breaker_open_until M (name p) t \<and> date_breaker e \<le> t"
    "map_get (connections M) (name p) = None"
  then have "connect_fresh e p M = (Inl (Disabled (name p)), M)"
      and "connect e p M = connect_fresh e p M"
    by (simp_all add: connect_unfold connect_fresh_rejects [of M p t e])
  then show "connect e p M = (Inl (Disabled (name p)), M)"
    by simp
next
  fix c
  assume h: "breaker_open_until M (name p) t \<and> date_breaker e \<le> t"
    "map_get (connections M) (name p) = Some c \<and> \<not> ping_ok e"
  let ?Ma = "M\<lparr>net_log := net_log M @ [Ping (name (profile c))]\<rparr>"
  from h have "breaker_open_until ?Ma (name p) t"
    by (simp add: breaker_open_until_def)
  with h have "connect_fresh e p ?Ma = (Inl (Disabled (name p)), ?Ma)"
    by (simp add: connect_fresh_rejects [of ?Ma p t e])
  with h show "connect e p M = (Inl (Disabled (name p)), ?Ma)"
    by (simp add: connect_unfold)
next
  assume h: "breaker_open_until M (name p) t \<and> t < date_breaker e"
  then show "isCircuitBreakerOpen (date_breaker e) (name p) M = (False, half_opened (name p) M)"
    by (simp add: isCircuitBreakerOpen_half [of M "name p" t])
next
  assume h: "breaker_open_until M (name p) t \<and> t < date_breaker e"
  then show "\<exists>b. circuitBreakers (half_opened (name p) M) (name p) = Some b \<and> state b = HalfOpen"
    by (simp add: half_opened_state [of M "name p" t])
next
  assume h: "breaker_open_until M (name p) t \<and> t < date_breaker e"
    and n: "map_get (connections M) (name p) = None"
  from n have c: "connect e p M = connect_fresh e p M"
    by (simp add: connect_unfold)
  with h show "connect e p M = connect_attempt e p (half_opened (name p) M)"
    by (simp add: connect_fresh_half [of M p t e])
next
  assume h: "breaker_open_until M (name p) t \<and> t < date_breaker e"
    and n: "map_get (connections M) (name p) = None"
  from n have c: "connect e p M = connect_fresh e p M"
    by (simp add: connect_unfold)
  from h half_open_attempt [of M p t e]
  show "net_log (snd (connect e p M)) = net_log M @ [Dial (name p)]"
    by (simp add: c)
next
  fix c
  assume h: "breaker_open_until M (name p) t \<and> t < date_breaker e"
    and n: "map_get (connections M) (name p) = Some c \<and> \<not> ping_ok e"
  let ?Ma = "M\<lparr>net_log := net_log M @ [Ping (name (profile c))]\<rparr>"
  from h have o: "breaker_open_until ?Ma (name p) t"
    by (simp add: breaker_open_until_def)
  from n have "connect e p M = connect_fresh e p ?Ma"
    by (simp add: connect_unfold)
  with h o show "connect e p M = connect_attempt e p (half_opened (name p) ?Ma)"
    by (simp add: connect_fresh_half [of ?Ma p t e])
next
  fix c
  assume h: "breaker_open_until M (name p) t \<and> t < date_breaker e"
    and n: "map_get (connections M) (name p) = Some c \<and> \<not> ping_ok e"
  let ?Ma = "M\<lparr>net_log := net_log M @ [Ping (name (profile c))]\<rparr>"
  from h have o: "breaker_open_until ?Ma (name p) t"
    by (simp add: breaker_open_until_def)
  from n have c: "connect e p M = connect_fresh e p ?Ma"
    by (simp add: connect_unfold)
  from h o half_open_attempt [of ?Ma p t e]
  show "net_log (snd (connect e p M)) = net_log M @ [Ping (name (profile c)), Dial (name p)]"
    by (simp add: c)
next
  assume h: "breaker_open_until M (name p) t \<and> t < date_breaker e"
    and n: "map_get (connections M) (name p) = None \<or> \<not> ping_ok e"
  show "case dial e of
         None \<Rightarrow> fst (connect e p M) = Inr () \<and>
                 circuitBreakers (snd (connect e p M)) (name p) = None
       | Some x \<Rightarrow> fst (connect e p M) = Inl (Thrown x) \<and>
                 breaker_open_until (snd (connect e p M)) (name p) (now_failure e + 60000)"
  proof (cases "map_get (connections M) (name p)")
    case None
    then have c: "connect e p M = connect_fresh e p M"
      by (simp add: connect_unfold)
    from h half_open_attempt [of M p t e] show ?thesis
      by (auto simp: c circuitBreakerTimeout_def split: option.splits)
  next
    case (Some c)
    let ?Ma = "M\<lparr>net_log := net_log M @ [Ping (name (profile c))]\<rparr>"
    from h have o: "breaker_open_until ?Ma (name p) t"
      by (simp add: breaker_open_until_def)
    from Some n have c: "connect e p M = connect_fresh e p ?Ma"
      by (simp add: connect_unfold)
    from h o half_open_attempt [of ?Ma p t e] show ?thesis
      by (auto simp: c circuitBreakerTimeout_def split: option.splits)
  qed
next
  assume h: "connect e p M = (Inr (), M') \<and>
    (map_get (connections M) (name p) = None \<or> \<not> ping_ok e)"
  show "circuitBreakers M' (name p) = None"
  proof (cases "map_get (connections M) (name p)")
    case None
    with h have "connect_fresh e p M = (Inr (), M')"
      by (simp add: connect_unfold)
    then show ?thesis by (rule connect_fresh_success)
  next
    case (Some c)
    with h have "connect_fresh e p (M\<lparr>net_log := net_log M @ [Ping (name (profile c))]\<rparr>)
        = (Inr (), M')"
      by (auto simp: connect_unfold)
    then show ?thesis by (rule connect_fresh_success)
  qed
qed

theorem circuit_breaker_behaviour_witness:
  "breaker_open_until tripped_manager ''local'' 63005 \<and>
   connect (env_down 4000) local_profile tripped_manager =
     (Inl (Disabled ''local''), tripped_manager) \<and>
   connect (env_down 4000) local_profile tripped_pooled_manager =
     (Inl (Disabled ''local''),
      tripped_pooled_manager\<lparr>net_log := net_log tripped_pooled_manager @ [Ping ''local'']\<rparr>) \<and>
   isCircuitBreakerOpen 70000 ''local'' tripped_manager =
     (False, half_opened ''local'' tripped_manager) \<and>
   circuitBreakers (half_opened ''local'' tripped_manager) ''local'' =
     Some \<lparr>failures = 3, lastFailure = Some 3005, state = HalfOpen, nextAttempt = Some 63005\<rparr> \<and>
   fst (connect (env_down 70000) local_profile tripped_manager) =
     Inl (Thrown (JsError ''connect ECONNREFUSED 127.0.0.1:27017'')) \<and>
   net_log (snd (connect (env_down 70000) local_profile tripped_manager)) =
     net_log tripped_manager @ [Dial ''local''] \<and>
   breaker_open_until (snd (connect (env_down 70000) local_profile tripped_manager)) ''local'' 130005 \<and>
   fst (connect (env_up 70000) local_profile tripped_manager) = Inr () \<and>
   circuitBreakers (snd (connect (env_up 70000) local_profile tripped_manager)) ''local'' = None \<and>
   fst (connect (env_down 70000) local_profile tripped_pooled_manager) =
     Inl (Thrown (JsError ''connect ECONNREFUSED 127.0.0.1:27017'')) \<and>
   net_log (snd (connect (env_down 70000) local_profile tripped_pooled_manager)) =
     net_log tripped_pooled_manager @ [Ping ''local'', Dial ''local''] \<and>
   breaker_open_until (snd (connect (env_down 70000) local_profile tripped_pooled_manager))
     ''local'' 130005 \<and>
   fst (connect (env_stale 70000) local_profile tripped_pooled_manager) = Inr () \<and>
   circuitBreakers (snd (connect (env_stale 70000) local_profile tripped_pooled_manager))
     ''local'' = None"
proof -
  let ?x = "JsError ''connect ECONNREFUSED 127.0.0.1:27017''"
  let ?A = "snd (connect (env_down 1000) local_profile new_manager)"
  let ?B = "snd (connect (env_down 2000) local_profile ?A)"
  let ?c = "\<lparr>client = 1, profile = local_profile, conn_lastUsed = 505,
        healthCache = None, healthCacheExpiry = None\<rparr>"
  have n: "name local_profile = ''local''"
    by (simp add: local_profile_def)
  have a: "connect (env_down 1000) local_profile new_manager = (Inl (Thrown ?x), ?A)"
    by (simp add: demo_defs)
  have b: "connect (env_down 2000) local_profile ?A = (Inl (Thrown ?x), ?B)"
    by (simp add: demo_defs)
  have c: "connect (env_down 3000) local_profile ?B = (Inl (Thrown ?x), tripped_manager)"
    by (simp add: tripped_manager_def demo_defs)
  have opened: "breaker_open_until tripped_manager ''local'' 63005"
    using circuit_breaker_behaviour [where ea = "env_down 1000" and p = local_profile
        and M = new_manager and xa = ?x and Ma = ?A and eb = "env_down 2000" and xb = ?x
        and Mb = ?B and ec = "env_down 3000" and xc = ?x and Mc = tripped_manager] a b c n
    by (simp add: env_down_def)
  have pooled: "breaker_open_until tripped_pooled_manager ''local'' 63005"
    by (simp add: tripped_pooled_manager_eq breaker_open_until_def maxFailures_def)
  have nopool: "map_get (connections tripped_manager) ''local'' = None"
    by (simp add: tripped_manager_eq map_get_def)
  have pool: "map_get (connections tripped_pooled_manager) ''local'' = Some ?c"
    by (simp add: tripped_pooled_manager_eq map_get_def)
  have early: "date_breaker (env_down 4000) \<le> 63005"
    by (simp add: env_down_def)
  have late: "(63005::int) < date_breaker (env_down 70000)" "(63005::int) < date_breaker (env_up 70000)"
    "(63005::int) < date_breaker (env_stale 70000)"
    by (simp_all add: env_down_def env_up_def env_stale_def)
  have envs: "\<not> ping_ok (env_down 4000)" "\<not> ping_ok (env_down 70000)" "\<not> ping_ok (env_stale 70000)"
    "dial (env_down 70000) = Some ?x" "dial (env_up 70000) = None" "dial (env_stale 70000) = None"
    "date_breaker (env_down 70000) = 70000" "now_failure (env_down 70000) + 60000 = 130005"
    by (simp_all add: env_down_def env_up_def env_stale_def)
  have pc: "name (profile ?c) = ''local''"
    by (simp add: local_profile_def)
  have rejected: "connect (env_down 4000) local_profile tripped_manager =
      (Inl (Disabled ''local''), tripped_manager)"
    using circuit_breaker_behaviour [where p = local_profile and t = 63005
        and M = tripped_manager and e = "env_down 4000",
        THEN conjunct2, THEN conjunct1, THEN mp, THEN conjunct1, THEN mp]
      opened nopool n early
    by simp
  have rejected_pooled: "connect (env_down 4000) local_profile tripped_pooled_manager =
     (Inl (Disabled ''local''),
      tripped_pooled_manager\<lparr>net_log := net_log tripped_pooled_manager @ [Ping ''local'']\<rparr>)"
    using circuit_breaker_behaviour [where p = local_profile and t = 63005
        and M = tripped_pooled_manager and e = "env_down 4000",
        THEN conjunct2, THEN conjunct1, THEN mp, THEN conjunct2,
        THEN spec, THEN mp, of ?c] pooled pool n early envs(1) pc
    by simp
  have h_down: "breaker_open_until tripped_manager (name local_profile) 63005 \<and>
      63005 < date_breaker (env_down 70000)"
    and h_up: "breaker_open_until tripped_manager (name local_profile) 63005 \<and>
      63005 < date_breaker (env_up 70000)"
    and hp_down: "breaker_open_until tripped_pooled_manager (name local_profile) 63005 \<and>
      63005 < date_breaker (env_down 70000)"
    and hp_stale: "breaker_open_until tripped_pooled_manager (name local_profile) 63005 \<and>
      63005 < date_breaker (env_stale 70000)"
    using opened pooled n late by simp_all
  have becomes: "isCircuitBreakerOpen 70000 ''local'' tripped_manager =
     (False, half_opened ''local'' tripped_manager)"
    using circuit_breaker_behaviour [where p = local_profile and t = 63005
        and M = tripped_manager and e = "env_down 70000",
        THEN conjunct2, THEN conjunct2, THEN conjunct1, THEN mp, OF h_down,
        THEN conjunct1] n envs(7)
    by simp
  have state: "circuitBreakers (half_opened ''local'' tripped_manager) ''local'' =
     Some \<lparr>failures = 3, lastFailure = Some 3005, state = HalfOpen, nextAttempt = Some 63005\<rparr>"
    using circuit_breaker_behaviour [where p = local_profile and t = 63005
        and M = tripped_manager and e = "env_down 70000",
        THEN conjunct2, THEN conjunct2, THEN conjunct1, THEN mp, OF h_down,
        THEN conjunct2, THEN conjunct1]
    by (simp add: tripped_manager_eq half_opened_def)
  have retry_log: "net_log (snd (connect (env_down 70000) local_profile tripped_manager)) =
     net_log tripped_manager @ [Dial ''local'']"
    using circuit_breaker_behaviour [where p = local_profile and t = 63005
        and M = tripped_manager and e = "env_down 70000",
        THEN conjunct2, THEN conjunct2, THEN conjunct1, THEN mp, OF h_down,
        THEN conjunct2, THEN conjunct2, THEN conjunct1, THEN mp,
        THEN conjunct2] nopool n
    by simp
  have retry_fails: "fst (connect (env_down 70000) local_profile tripped_manager) = Inl (Thrown ?x) \<and>
      breaker_open_until (snd (connect (env_down 70000) local_profile tripped_manager)) ''local'' 130005"
    using circuit_breaker_behaviour [where p = local_profile and t = 63005
        and M = tripped_manager and e = "env_down 70000",
        THEN conjunct2, THEN conjunct2, THEN conjunct1, THEN mp, OF h_down,
        THEN conjunct2, THEN conjunct2, THEN conjunct2, THEN conjunct2,
        THEN mp] nopool n envs(4) envs(8)
    by simp
  have retry_ok: "fst (connect (env_up 70000) local_profile tripped_manager) = Inr () \<and>
      circuitBreakers (snd (connect (env_up 70000) local_profile tripped_manager)) ''local'' = None"
    using circuit_breaker_behaviour [where p = local_profile and t = 63005
        and M = tripped_manager and e = "env_up 70000",
        THEN conjunct2, THEN conjunct2, THEN conjunct1, THEN mp, OF h_up,
        THEN conjunct2, THEN conjunct2, THEN conjunct2, THEN conjunct2,
        THEN mp] nopool n envs(5)
    by simp
  have pooled_log: "net_log (snd (connect (env_down 70000) local_profile tripped_pooled_manager)) =
     net_log tripped_pooled_manager @ [Ping ''local'', Dial ''local'']"
    using circuit_breaker_behaviour [where p = local_profile and t = 63005
        and M = tripped_pooled_manager and e = "env_down 70000",
        THEN conjunct2, THEN conjunct2, THEN conjunct1, THEN mp, OF hp_down,
        THEN conjunct2, THEN conjunct2, THEN conjunct2, THEN conjunct1,
        THEN spec, THEN mp, THEN conjunct2, of ?c] pool n envs(2) pc
    by simp
  have pooled_fails:
    "fst (connect (env_down 70000) local_profile tripped_pooled_manager) = Inl (Thrown ?x) \<and>
     breaker_open_until (snd (connect (env_down 70000) local_profile tripped_pooled_manager))
       ''local'' 130005"
    using circuit_breaker_behaviour [where p = local_profile and t = 63005
        and M = tripped_pooled_manager and e = "env_down 70000",
        THEN conjunct2, THEN conjunct2, THEN conjunct1, THEN mp, OF hp_down,
        THEN conjunct2, THEN conjunct2, THEN conjunct2, THEN conjunct2,
        THEN mp] n envs(2) envs(4) envs(8)
    by simp
  have pooled_ok:
    "fst (connect (env_stale 70000) local_profile tripped_pooled_manager) = Inr () \<and>
     circuitBreakers (snd (connect (env_stale 70000) local_profile tripped_pooled_manager))
       ''local'' = None"
    using circuit_breaker_behaviour [where p = local_profile and t = 63005
        and M = tripped_pooled_manager and e = "env_stale 70000",
        THEN conjunct2, THEN conjunct2, THEN conjunct1, THEN mp, OF hp_stale,
        THEN conjunct2, THEN conjunct2, THEN conjunct2, THEN conjunct2,
        THEN mp] n envs(3) envs(6)
    by simp
  from opened rejected rejected_pooled becomes state retry_log retry_fails retry_ok
    pooled_log pooled_fails pooled_ok
  show ?thesis
    by (intro conjI) simp_all
qed

section \<open>Properties of the profile store\<close>

subsection \<open>The file operations in closed form\<close>

lemma logged_fields [simp]:
  "dir_exists (logged ev s) = dir_exists s"
  "profilesFile (logged ev s) = profilesFile s"
  "tempFile (logged ev s) = tempFile s"
  "faults (logged ev s) = faults s"
  "cachedProfiles (logged ev s) = cachedProfiles s"
  "lastModified (logged ev s) = lastModified s"
  "fs_log (logged ev s) = fs_log s @ [ev]"
  by (simp_all add: logged_def)

lemma fs_stat_eq:
  "fs_stat s =
     ((case stat_fault (faults s) of
         Some c \<Rightarrow> Inl (FsError c)
       | None \<Rightarrow> (case profilesFile s of None \<Rightarrow> Inl (FsError ''ENOENT'') | Some f \<Rightarrow> Inr (mtime f))),
      logged Stat s)"
  by (simp add: fs_stat_def split: option.splits)

lemma loadStorage_eq:
  "loadStorage env s = (loadStorage_result env s, after_loadStorage s)"
  by (simp add: loadStorage_def loadStorage_result_def after_loadStorage_def empty_storage_def
      fs_mkdir_def fs_readFile_def
      split: option.splits json_text.splits)

lemma after_loadStorage_fields [simp]:
  "profilesFile (after_loadStorage s) = profilesFile s"
  "tempFile (after_loadStorage s) = tempFile s"
  "faults (after_loadStorage s) = faults s"
  "cachedProfiles (after_loadStorage s) = cachedProfiles s"
  "lastModified (after_loadStorage s) = lastModified s"
  by (simp_all add: after_loadStorage_def)

lemma after_loadStorage_logged [simp]:
  "loadStorage_result env (logged ev s) = loadStorage_result env s"
  by (simp add: loadStorage_result_def cong: option.case_cong)

lemma loadProfiles_eq:
  "loadProfiles K env s =
     (case stat_fault (faults s) of
        Some c \<Rightarrow> loadProfiles_catch (FsError c) (logged Stat s)
      | None \<Rightarrow>
         (case profilesFile s of
            None \<Rightarrow> (Inr ([], Missing), logged Stat s)
          | Some f \<Rightarrow>
              if mtime f = lastModified s \<and> cachedProfiles s \<noteq> []
              then (Inr (cachedProfiles s, CacheHit), logged Stat s)
              else (case loadStorage_result env s of
                      Inl e \<Rightarrow> loadProfiles_catch e (after_loadStorage (logged Stat s))
                    | Inr st \<Rightarrow>
                        (Inr (decrypt_all K (profiles st), Reloaded),
                         (after_loadStorage (logged Stat s))
                           \<lparr>cachedProfiles := decrypt_all K (profiles st), lastModified := mtime f\<rparr>))))"
  by (simp add: loadProfiles_def fs_stat_eq loadStorage_eq loadProfiles_catch_def Let_def
      split: option.splits sum.splits)

lemma loadProfiles_frame [simp]:
  "profilesFile (snd (loadProfiles K env s)) = profilesFile s"
  "tempFile (snd (loadProfiles K env s)) = tempFile s"
  "faults (snd (loadProfiles K env s)) = faults s"
  by (simp_all add: loadProfiles_eq loadProfiles_catch_def split: option.splits sum.splits)

lemma loadProfiles_alias:
  assumes "loadProfiles K env s = (Inr (m, path), s1)"
  shows "if path = Missing then m = [] \<and> cachedProfiles s1 = cachedProfiles s
         else cachedProfiles s1 = m"
  using assms
  by (auto simp: loadProfiles_eq loadProfiles_catch_def split: option.splits sum.splits if_splits)

lemma loadStorage_result_Inr_mkdir:
  "loadStorage_result env s = Inr st \<Longrightarrow> mkdir_fault (faults s) = None"
  by (simp add: loadStorage_result_def split: option.splits)

lemma saveProfiles_eq:
  "saveProfiles K env m s =
     (case loadStorage_result env s of
        Inl e \<Rightarrow> (Inl e, after_loadStorage s)
      | Inr st \<Rightarrow>
          (case writeFile_fault (faults s) of
             Some c \<Rightarrow> (Inl (FsError c), logged WriteFile (after_loadStorage s))
           | None \<Rightarrow>
               (case rename_fault (faults s) of
                  Some c \<Rightarrow>
                    (Inl (FsError c),
                     logged Rename ((logged WriteFile (after_loadStorage s))
                       \<lparr>tempFile := Some (written K env m st)\<rparr>))
                | None \<Rightarrow>
                    (Inr (),
                     (logged Rename ((logged WriteFile (after_loadStorage s))
                        \<lparr>tempFile := Some (written K env m st)\<rparr>))
                       \<lparr>profilesFile := Some (written K env m st), tempFile := None,
                        cachedProfiles := m, lastModified := now_saved env\<rparr>))))"
proof (cases "loadStorage_result env s")
  case (Inl e)
  then show ?thesis
    by (simp add: saveProfiles_def loadStorage_eq)
next
  case (Inr st)
  then have d: "dir_exists (after_loadStorage s)"
    by (simp add: after_loadStorage_def loadStorage_result_Inr_mkdir)
  show ?thesis
    by (simp add: saveProfiles_def loadStorage_eq Inr fs_writeFile_def fs_rename_def d written_def
        Let_def split: option.splits)
qed

lemma saveProfiles_success:
  assumes "saveProfiles K env m s = (Inr u, s')"
  shows "\<exists>st. loadStorage_result env s = Inr st \<and>
           profilesFile s' = Some (written K env m st) \<and> tempFile s' = None \<and>
           cachedProfiles s' = m \<and> lastModified s' = now_saved env \<and>
           faults s' = faults s \<and> dir_exists s' \<and>
           fs_log s' = fs_log s @ [Mkdir, ReadFile, WriteFile, Rename]"
  using assms
  by (auto simp: saveProfiles_eq after_loadStorage_def loadStorage_result_Inr_mkdir
      split: sum.splits option.splits)

lemma saveProfiles_failure:
  assumes "saveProfiles K env m s = (Inl e, s')"
  shows "profilesFile s' = profilesFile s \<and> cachedProfiles s' = cachedProfiles s \<and>
         faults s' = faults s \<and> lastModified s' = lastModified s"
  using assms
  by (auto simp: saveProfiles_eq split: sum.splits option.splits)

lemma saveProfiles_healthy:
  assumes "writeFile_fault (faults s) = None" "rename_fault (faults s) = None"
    "loadStorage_result env s = Inr st"
  shows "fst (saveProfiles K env m s) = Inr ()"
  using assms by (simp add: saveProfiles_eq)

subsection \<open>An absent file, the configuration directory, I/O errors\<close>

lemma add_success:
  assumes "add K env p s = (Inr u, s')"
  obtains m path s1 where "validateProfile p = None"
    "loadProfiles K env s = (Inr (m, path), s1)" "\<not> map_has m (name p)"
    "saveProfiles K env (map_set (name p) (stamped env p) m)
       (in_place path (map_set (name p) (stamped env p) m) s1) = (Inr u, s')"
  using assms unfolding add_def stamped_def
  by (auto simp: Let_def split: option.splits sum.splits prod.splits if_splits)

lemma add_creates_dir:
  "fst (add K env p s) = Inr u \<Longrightarrow> dir_exists (snd (add K env p s))"
proof -
  assume "fst (add K env p s) = Inr u"
  then have "add K env p s = (Inr u, snd (add K env p s))"
    by (metis prod.collapse)
  then show ?thesis
    by (elim add_success) (auto dest: saveProfiles_success)
qed

lemma export_creates_dir:
  "fst (export_profiles env s) = Inr x \<Longrightarrow> dir_exists (snd (export_profiles env s))"
  by (auto simp: export_profiles_def loadStorage_eq after_loadStorage_def
      dest: loadStorage_result_Inr_mkdir split: sum.splits)

lemma read_absent_file:
  assumes "profilesFile s = None" "stat_fault (faults s) = None"
  shows "list_profiles K env s = (Inr [], logged Stat s)"
    and "get K env n s = (Inr None, logged Stat s)"
  using assms
  by (simp_all add: list_profiles_def get_def loadProfiles_eq map_values_def map_get_def)

lemma read_stat_fault:
  assumes "stat_fault (faults s) = Some c" "c \<noteq> ''ENOENT''"
  shows "fst (list_profiles K env s) = Inl (FsError c)"
    and "fst (get K env n s) = Inl (FsError c)"
  using assms
  by (simp_all add: list_profiles_def get_def loadProfiles_eq loadProfiles_catch_def)

lemma read_load_fault:
  assumes "stat_fault (faults s) = None" "profilesFile s = Some f"
    "mtime f \<noteq> lastModified s \<or> cachedProfiles s = []"
    "loadStorage_result env s = Inl (FsError c)" "c \<noteq> ''ENOENT''"
  shows "fst (list_profiles K env s) = Inl (FsError c)"
    and "fst (get K env n s) = Inl (FsError c)"
  using assms
  by (auto simp: list_profiles_def get_def loadProfiles_eq loadProfiles_catch_def)

text \<open>
  Claim C8, amended. When the backing file is absent, \<open>list\<close> and \<open>get\<close> succeed
  with an empty result after a single \<open>stat\<close>, and leave everything else as it was: no
  directory is created by a read. The directory exists after every successful \<open>add\<close> and
  after every successful \<open>export\<close>, the calls that load the storage container. An
  error of \<open>stat\<close>, \<open>mkdir\<close> or \<open>readFile\<close> whose code is not \<open>ENOENT\<close> reaches the
  caller of \<open>list\<close> and \<open>get\<close> unchanged.
\<close>

theorem absent_file_reads_empty:
  "(profilesFile s = None \<and> stat_fault (faults s) = None \<longrightarrow>
      list_profiles K env s = (Inr [], logged Stat s) \<and>
      get K env n s = (Inr None, logged Stat s) \<and>
      dir_exists (logged Stat s) = dir_exists s) \<and>
   (fst (add K env p s) = Inr () \<longrightarrow> dir_exists (snd (add K env p s))) \<and>
   (\<forall>x. fst (export_profiles env s) = Inr x \<longrightarrow> dir_exists (snd (export_profiles env s))) \<and>
   (\<forall>c. c \<noteq> ''ENOENT'' \<and> stat_fault (faults s) = Some c \<longrightarrow>
      fst (list_profiles K env s) = Inl (FsError c) \<and> fst (get K env n s) = Inl (FsError c)) \<and>
   (\<forall>c f. c \<noteq> ''ENOENT'' \<and> stat_fault (faults s) = None \<and> profilesFile s = Some f \<and>
      (mtime f \<noteq> lastModified s \<or> cachedProfiles s = []) \<and>
      (mkdir_fault (faults s) = Some c \<or>
       mkdir_fault (faults s) = None \<and> readFile_fault (faults s) = Some c) \<longrightarrow>
      fst (list_profiles K env s) = Inl (FsError c) \<and> fst (get K env n s) = Inl (FsError c))"
proof (intro conjI allI impI)
  fix c f
  assume h: "c \<noteq> ''ENOENT'' \<and> stat_fault (faults s) = None \<and> profilesFile s = Some f \<and>
      (mtime f \<noteq> lastModified s \<or> cachedProfiles s = []) \<and>
      (mkdir_fault (faults s) = Some c \<or>
       mkdir_fault (faults s) = None \<and> readFile_fault (faults s) = Some c)"
  then have r: "loadStorage_result env s = Inl (FsError c)"
    by (auto simp: loadStorage_result_def)
  from h r show "fst (list_profiles K env s) = Inl (FsError c)"
    by (intro read_load_fault(1) [of s f env c]) auto
  from h r show "fst (get K env n s) = Inl (FsError c)"
    by (intro read_load_fault(2) [of s f env c]) auto
qed (simp_all add: read_absent_file read_stat_fault add_creates_dir export_creates_dir)

text \<open>
  Claim C8, as stated, has the first access create the configuration directory. On a
  new store with neither directory nor file, \<open>list\<close> and \<open>get\<close> return the empty result
  and the directory still does not exist: \<open>stat\<close> fails with \<open>ENOENT\<close> before
  \<open>loadStorage\<close>, the only caller of \<open>mkdir\<close>, is reached.
\<close>

theorem first_read_no_directory_counterexample:
  "profilesFile fresh_store = None \<and> dir_exists fresh_store = False \<and>
   fst (list_profiles toy_cipher env0 fresh_store) = Inr [] \<and>
   dir_exists (snd (list_profiles toy_cipher env0 fresh_store)) = False \<and>
   fst (get toy_cipher env0 ''local'' fresh_store) = Inr None \<and>
   dir_exists (snd (get toy_cipher env0 ''local'' fresh_store)) = False"
  by (simp add: list_profiles_def get_def loadProfiles_eq fresh_store_def no_faults_def
      map_values_def map_get_def)

subsection \<open>The store after one profile is added; duplicate names\<close>

lemma validate_local: "validateProfile local_profile = None"
  by (simp add: validateProfile_def local_profile_def name_chars_def startsWith_def)

lemma encrypt_all_single: "encrypt_all K env [p] = [encryptProfile K env 0 p]"
  by (simp add: encrypt_all_def enumerate_eq_zip)

lemma add_local_fresh:
  "add toy_cipher env0 local_profile fresh_store =
     (Inr (),
      \<lparr>dir_exists = True,
       profilesFile = Some \<lparr>content = Json \<lparr>profiles = [encryptProfile toy_cipher env0 0 (stamped env0 local_profile)],
                               defaultProfile = None, version = ''2.0.0'',
                               file_createdAt = now_iso env0\<rparr>,
                             mtime = 1000\<rparr>,
       tempFile = None, faults = no_faults,
       fs_log = [Stat, Mkdir, ReadFile, WriteFile, Rename],
       cachedProfiles = [(''local'', stamped env0 local_profile)],
       lastModified = 1001\<rparr>)"
proof -
  let ?m = "[(''local'', stamped env0 local_profile)]"
  have l: "loadProfiles toy_cipher env0 fresh_store = (Inr ([], Missing), logged Stat fresh_store)"
    by (simp add: loadProfiles_eq fresh_store_def no_faults_def)
  have r: "loadStorage_result env0 fresh_store = Inr (empty_storage env0)"
    by (simp add: loadStorage_result_def fresh_store_def no_faults_def)
  have f: "writeFile_fault (faults fresh_store) = None" "rename_fault (faults fresh_store) = None"
    by (simp_all add: fresh_store_def no_faults_def)
  have n: "name local_profile = ''local''"
    by (simp add: local_profile_def)
  have a: "add toy_cipher env0 local_profile fresh_store =
      saveProfiles toy_cipher env0 ?m (logged Stat fresh_store)"
    unfolding add_def
    by (simp add: validate_local l map_has_def in_place_def n Let_def stamped_def [symmetric])
  have w: "written toy_cipher env0 ?m (empty_storage env0) =
      \<lparr>content = Json \<lparr>profiles = [encryptProfile toy_cipher env0 0 (stamped env0 local_profile)],
                               defaultProfile = None, version = ''2.0.0'',
                               file_createdAt = now_iso env0\<rparr>,
                             mtime = 1000\<rparr>"
    by (simp add: written_def map_values_def encrypt_all_single empty_storage_def)
      (simp add: env0_def)
  have t: "now_saved env0 = 1001"
    by (simp add: env0_def)
  show ?thesis
    unfolding a
    by (simp add: saveProfiles_eq r f w t)
      (simp add: after_loadStorage_def logged_def fresh_store_def no_faults_def)
qed

lemma store_with_local_eq:
  "store_with_local =
      \<lparr>dir_exists = True,
       profilesFile = Some \<lparr>content = Json \<lparr>profiles = [encryptProfile toy_cipher env0 0 (stamped env0 local_profile)],
                               defaultProfile = None, version = ''2.0.0'',
                               file_createdAt = now_iso env0\<rparr>,
                             mtime = 1000\<rparr>,
       tempFile = None, faults = no_faults,
       fs_log = [Stat, Mkdir, ReadFile, WriteFile, Rename],
       cachedProfiles = [(''local'', stamped env0 local_profile)],
       lastModified = 1001\<rparr>"
  by (simp add: store_with_local_def add_local_fresh)

lemma decrypt_stamped_local:
  "decrypt_all toy_cipher [encryptProfile toy_cipher env0 0 (stamped env0 local_profile)] =
     [(''local'', stamped env0 local_profile)]"
  by (simp add: decrypt_all_def decrypt_step_def decryptProfile_def encryptProfile_def
      toy_cipher_def stamped_def local_profile_def spread_metadata_def)

lemma loadProfiles_store_with_local:
  "loadProfiles toy_cipher env0 store_with_local =
     (Inr ([(''local'', stamped env0 local_profile)], Reloaded),
      store_with_local\<lparr>fs_log := fs_log store_with_local @ [Stat, Mkdir, ReadFile],
        lastModified := 1000\<rparr>)"
  by (simp add: loadProfiles_eq store_with_local_eq no_faults_def loadStorage_result_def
      decrypt_stamped_local after_loadStorage_def logged_def)

theorem absent_file_reads_empty_witness:
  "list_profiles toy_cipher env0 fresh_store = (Inr [], logged Stat fresh_store) \<and>
   get toy_cipher env0 ''local'' fresh_store = (Inr None, logged Stat fresh_store) \<and>
   dir_exists (logged Stat fresh_store) = dir_exists fresh_store \<and>
   dir_exists (snd (add toy_cipher env0 local_profile fresh_store)) \<and>
   dir_exists (snd (export_profiles env0 fresh_store)) \<and>
   fst (list_profiles toy_cipher env0 denied_store) = Inl (FsError ''EACCES'') \<and>
   fst (get toy_cipher env0 ''local'' unreadable_store) = Inl (FsError ''EIO'')"
proof -
  note t = absent_file_reads_empty [where K = toy_cipher and env = env0 and n = "''local''"
      and p = local_profile]
  have a: "profilesFile fresh_store = None \<and> stat_fault (faults fresh_store) = None"
    by (simp add: fresh_store_def no_faults_def)
  have b: "fst (add toy_cipher env0 local_profile fresh_store) = Inr ()"
    by (simp add: add_local_fresh)
  have c: "fst (export_profiles env0 fresh_store) = Inr (Json (empty_storage env0))"
    by (simp add: export_profiles_def loadStorage_eq loadStorage_result_def fresh_store_def
        no_faults_def)
  have d: "''EACCES'' \<noteq> ''ENOENT'' \<and> stat_fault (faults denied_store) = Some ''EACCES''"
    by (simp add: denied_store_def)
  have e: "''EIO'' \<noteq> ''ENOENT'' \<and> stat_fault (faults unreadable_store) = None \<and>
      profilesFile unreadable_store = Some local_file \<and>
      (mtime local_file \<noteq> lastModified unreadable_store \<or> cachedProfiles unreadable_store = []) \<and>
      (mkdir_fault (faults unreadable_store) = Some ''EIO'' \<or>
       mkdir_fault (faults unreadable_store) = None \<and>
       readFile_fault (faults unreadable_store) = Some ''EIO'')"
    by (simp add: unreadable_store_def store_with_local_eq no_faults_def local_file_def)
  note 1 = t [of fresh_store, THEN conjunct1, THEN mp, OF a]
  note 2 = t [of fresh_store, THEN conjunct2, THEN conjunct1, THEN mp, OF b]
  note 3 = t [of fresh_store, THEN conjunct2, THEN conjunct2, THEN conjunct1, THEN spec, THEN mp, OF c]
  note 4 = t [of denied_store, THEN conjunct2, THEN conjunct2, THEN conjunct2, THEN conjunct1,
      THEN spec, THEN mp, OF d, THEN conjunct1]
  note 5 = t [of unreadable_store, THEN conjunct2, THEN conjunct2, THEN conjunct2, THEN conjunct2,
      THEN spec, THEN spec, THEN mp, OF e, THEN conjunct2]
  from 1 2 3 4 5 show ?thesis
    by (intro conjI) (erule conjunct1 | erule conjunct2 [THEN conjunct1] | erule conjunct2 [THEN conjunct2] | assumption)+
qed

text \<open>
  Claim C4, amended. When the profiles that \<open>add\<close> loads hold the name of \<open>P\<close>,
  \<open>add P\<close> fails and writes nothing: with the validation error of \<open>P\<close>, before
  the store is even read, when \<open>P\<close> fails validation; otherwise with the duplicate-name
  error, the store being left as the read left it, with the loaded profiles in the cache
  and the file and the temporary file untouched.
\<close>

theorem add_existing_name_rejected:
  "loadProfiles K env s = (Inr (m, path), s1) \<and> map_has m (name p) \<longrightarrow>
     (case validateProfile p of
        Some e \<Rightarrow> add K env p s = (Inl e, s)
      | None \<Rightarrow>
          add K env p s = (Inl (DuplicateName (name p)), s1) \<and>
          cachedProfiles s1 = m \<and> profilesFile s1 = profilesFile s \<and> tempFile s1 = tempFile s)"
proof
  assume h: "loadProfiles K env s = (Inr (m, path), s1) \<and> map_has m (name p)"
  then have "path \<noteq> Missing"
    using loadProfiles_alias [of K env s m path s1] by (auto simp: map_has_def)
  with h have c: "cachedProfiles s1 = m"
    using loadProfiles_alias [of K env s m path s1] by simp
  from h have f: "profilesFile s1 = profilesFile s" "tempFile s1 = tempFile s"
    using loadProfiles_frame [of K env s] by simp_all
  show "case validateProfile p of
        Some e \<Rightarrow> add K env p s = (Inl e, s)
      | None \<Rightarrow>
          add K env p s = (Inl (DuplicateName (name p)), s1) \<and>
          cachedProfiles s1 = m \<and> profilesFile s1 = profilesFile s \<and> tempFile s1 = tempFile s"
    using h c f by (simp add: add_def split: option.splits)
qed

text \<open>
  Claim C4, as stated, promises the duplicate-name error also for a profile that fails
  validation. \<open>validateProfile\<close> runs first: adding, under the existing name
  \<open>local\<close>, a profile whose URI lacks the scheme fails with the URI-scheme error.
\<close>

theorem add_existing_invalid_uri_counterexample:
  "fst (add toy_cipher env0 local_profile fresh_store) = Inr () \<and>
   fst (get toy_cipher env0 ''local'' store_with_local) = Inr (Some (stamped env0 local_profile)) \<and>
   name (local_profile\<lparr>uri := ''localhost:27017''\<rparr>) = ''local'' \<and>
   add toy_cipher env0 (local_profile\<lparr>uri := ''localhost:27017''\<rparr>) store_with_local =
     (Inl UriScheme, store_with_local)"
  by (simp add: add_local_fresh get_def loadProfiles_store_with_local map_get_def)
    (simp add: add_def validateProfile_def local_profile_def name_chars_def startsWith_def)

theorem add_existing_name_rejected_witness:
  "loadProfiles toy_cipher env0 store_with_local =
     (Inr ([(''local'', stamped env0 local_profile)], Reloaded), reloaded_local) \<and>
   map_has [(''local'', stamped env0 local_profile)] (name local_profile) \<and>
   validateProfile local_profile = None \<and>
   add toy_cipher env0 local_profile store_with_local =
     (Inl (DuplicateName (name local_profile)), reloaded_local) \<and>
   profilesFile reloaded_local = profilesFile store_with_local \<and>
   validateProfile (local_profile\<lparr>uri := ''localhost:27017''\<rparr>) = Some UriScheme \<and>
   add toy_cipher env0 (local_profile\<lparr>uri := ''localhost:27017''\<rparr>) store_with_local =
     (Inl UriScheme, store_with_local)"
proof -
  let ?m = "[(''local'', stamped env0 local_profile)]"
  let ?q = "local_profile\<lparr>uri := ''localhost:27017''\<rparr>"
  have l: "loadProfiles toy_cipher env0 store_with_local = (Inr (?m, Reloaded), reloaded_local)"
    by (simp only: loadProfiles_store_with_local reloaded_local_def)
  have h: "map_has ?m (name local_profile)"
    by (simp add: map_has_def local_profile_def)
  have h': "map_has ?m (name ?q)"
    by (simp add: map_has_def local_profile_def)
  have v: "validateProfile ?q = Some UriScheme"
    by (simp add: validateProfile_def local_profile_def name_chars_def startsWith_def)
  note 1 = add_existing_name_rejected [of toy_cipher env0 store_with_local ?m Reloaded
      reloaded_local local_profile, THEN mp, OF conjI [OF l h]]
  note 2 = add_existing_name_rejected [of toy_cipher env0 store_with_local ?m Reloaded
      reloaded_local ?q, THEN mp, OF conjI [OF l h']]
  from 1 have a: "add toy_cipher env0 local_profile store_with_local =
      (Inl (DuplicateName (name local_profile)), reloaded_local) \<and>
      cachedProfiles reloaded_local = ?m \<and>
      profilesFile reloaded_local = profilesFile store_with_local \<and>
      tempFile reloaded_local = tempFile store_with_local"
    by (simp only: validate_local option.case)
  from 2 have b: "add toy_cipher env0 ?q store_with_local = (Inl UriScheme, store_with_local)"
    by (simp only: v option.case)
  from l h validate_local a b v show ?thesis
    by (intro conjI) (assumption | erule conjunct1 | erule conjunct2 [THEN conjunct2, THEN conjunct1])+
qed

subsection \<open>Mutations and what they persist\<close>

lemma in_place_fields [simp]:
  "profilesFile (in_place path m s) = profilesFile s"
  "tempFile (in_place path m s) = tempFile s"
  "faults (in_place path m s) = faults s"
  "fs_log (in_place path m s) = fs_log s"
  "dir_exists (in_place path m s) = dir_exists s"
  by (simp_all add: in_place_def)

lemma loadStorage_result_cong:
  "faults a = faults b \<Longrightarrow> profilesFile a = profilesFile b \<Longrightarrow>
   loadStorage_result env a = loadStorage_result env b"
  by (simp add: loadStorage_result_def cong: option.case_cong)

lemma remove_true:
  assumes "remove K env n s = (Inr True, s')"
  obtains m path s1 where "loadProfiles K env s = (Inr (m, path), s1)" "map_has m n"
    "saveProfiles K env (snd (map_delete n m)) (in_place path (snd (map_delete n m)) s1) = (Inr (), s')"
  using assms unfolding remove_def
  by (auto simp: map_delete_def split: sum.splits prod.splits if_splits)

lemma update_true:
  assumes "update K env n u s = (Inr True, s')"
  obtains m path s1 existing where "loadProfiles K env s = (Inr (m, path), s1)"
    "map_get m n = Some existing" "validateProfile (merge_profile n existing u) = None"
    "saveProfiles K env (map_set n (merge_profile n existing u) m)
       (in_place path (map_set n (merge_profile n existing u) m) s1) = (Inr (), s')"
  using assms unfolding update_def
  by (auto simp: Let_def split: sum.splits prod.splits option.splits)

lemma setDefault_true:
  assumes "setDefault K env n s = (Inr True, s')"
  obtains m path s1 p where "loadProfiles K env s = (Inr (m, path), s1)"
    "map_get m n = Some p"
    "saveProfiles K env (map_set n (defaulted p) (clear_defaults m))
       (in_place path (map_set n (defaulted p) (clear_defaults m)) s1) = (Inr (), s')"
  using assms unfolding setDefault_def defaulted_def
  by (auto simp: Let_def split: sum.splits prod.splits option.splits)

lemma mutation_persisted:
  assumes "run_mutation K env mu s = (Inr True, s')"
  shows "\<exists>m path s1 m'. loadProfiles K env s = (Inr (m, path), s1) \<and>
           saveProfiles K env m' (in_place path m' s1) = (Inr (), s')"
proof (cases mu)
  case (Add p)
  with assms have "add K env p s = (Inr (), s')"
    by (auto split: sum.splits prod.splits)
  then show ?thesis
    by (elim add_success) blast
next
  case (Remove n)
  with assms have "remove K env n s = (Inr True, s')" by simp
  then show ?thesis
    by (elim remove_true) blast
next
  case (Update n u)
  with assms have "update K env n u s = (Inr True, s')" by simp
  then show ?thesis
    by (elim update_true) blast
next
  case (SetDefault n)
  with assms have "setDefault K env n s = (Inr True, s')" by simp
  then show ?thesis
    by (elim setDefault_true) blast
qed

lemma mutation_not_persisted:
  assumes "run_mutation K env mu s = (Inr False, s')"
  shows "profilesFile s' = profilesFile s \<and> tempFile s' = tempFile s"
proof -
  have f: "\<And>r s1. loadProfiles K env s = (r, s1) \<Longrightarrow>
      profilesFile s1 = profilesFile s \<and> tempFile s1 = tempFile s"
    using loadProfiles_frame [of K env s] by auto
  show ?thesis
  proof (cases mu)
    case (Add p)
    with assms show ?thesis by (auto split: sum.splits prod.splits)
  next
    case (Remove n)
    with assms show ?thesis
      by (auto simp: remove_def split: sum.splits prod.splits if_splits dest!: f)
  next
    case (Update n u)
    with assms show ?thesis
      by (auto simp: update_def Let_def split: sum.splits prod.splits option.splits dest!: f)
  next
    case (SetDefault n)
    with assms show ?thesis
      by (auto simp: setDefault_def Let_def split: sum.splits prod.splits option.splits dest!: f)
  qed
qed

lemma mutation_written:
  assumes "run_mutation K env mu s = (Inr True, s')"
  shows "\<exists>st. loadStorage_result env s = Inr st \<and>
           profilesFile s' = Some (written K env (cachedProfiles s') st) \<and>
           lastModified s' = now_saved env \<and> faults s' = faults s \<and> tempFile s' = None"
proof -
  from mutation_persisted [OF assms] obtain m path s1 m' where
    l: "loadProfiles K env s = (Inr (m, path), s1)" and
    sv: "saveProfiles K env m' (in_place path m' s1) = (Inr (), s')"
    by blast
  from l loadProfiles_frame [of K env s] have
    fr: "profilesFile s1 = profilesFile s" "faults s1 = faults s"
    by simp_all
  then have "loadStorage_result env (in_place path m' s1) = loadStorage_result env s"
    by (intro loadStorage_result_cong) simp_all
  with saveProfiles_success [OF sv] fr show ?thesis
    by auto
qed

text \<open>
  Claim C9. When the existing file is read (no standing fault of \<open>readFile\<close>) and holds
  a storage container, a mutation that succeeds leaves a file that holds a container with
  the same \<open>version\<close>, \<open>createdAt\<close> and \<open>defaultProfile\<close>: when it persisted (\<open>add\<close>, or
  \<open>remove\<close>, \<open>update\<close>, \<open>setDefault\<close> returning true) only the profiles array is new, the
  encryption of the map now in the cache; when it returned false the file is the one
  it was.
\<close>

theorem mutation_keeps_container_fields:
  "readFile_fault (faults s) = None \<and> profilesFile s = Some f \<and> content f = Json st \<and>
   run_mutation K env mu s = (Inr r, s') \<longrightarrow>
     (\<exists>f' st'. profilesFile s' = Some f' \<and> content f' = Json st' \<and>
        version st' = version st \<and> file_createdAt st' = file_createdAt st \<and>
        defaultProfile st' = defaultProfile st \<and>
        (if r then profiles st' = encrypt_all K env (map_values (cachedProfiles s')) else f' = f))"
proof
  assume h: "readFile_fault (faults s) = None \<and> profilesFile s = Some f \<and> content f = Json st \<and>
   run_mutation K env mu s = (Inr r, s')"
  show "\<exists>f' st'. profilesFile s' = Some f' \<and> content f' = Json st' \<and>
        version st' = version st \<and> file_createdAt st' = file_createdAt st \<and>
        defaultProfile st' = defaultProfile st \<and>
        (if r then profiles st' = encrypt_all K env (map_values (cachedProfiles s')) else f' = f)"
  proof (cases r)
    case True
    with h have "run_mutation K env mu s = (Inr True, s')" by simp
    from mutation_written [OF this] obtain st0 where
      a: "loadStorage_result env s = Inr st0"
        "profilesFile s' = Some (written K env (cachedProfiles s') st0)"
      by blast
    from a(1) h have "st0 = st"
      by (auto simp: loadStorage_result_def split: option.splits)
    with a(2) True show ?thesis
      by (simp add: written_def)
  next
    case False
    with h have "run_mutation K env mu s = (Inr False, s')" by simp
    from mutation_not_persisted [OF this] h False show ?thesis
      by simp
  qed
qed

lemma decrypt_all_Nil [simp]: "decrypt_all K [] = []"
  by (simp add: decrypt_all_def)

lemma encrypt_all_Nil [simp]: "encrypt_all K env [] = []"
  by (simp add: encrypt_all_def)

lemma loadProfiles_hit:
  assumes "stat_fault (faults s) = None" "profilesFile s = Some f"
    "mtime f = lastModified s" "cachedProfiles s \<noteq> []"
  shows "loadProfiles K env s = (Inr (cachedProfiles s, CacheHit), logged Stat s)"
  using assms by (simp add: loadProfiles_eq)

text \<open>
  Claim C7 has the read that follows a successful mutation served from the cache,
  \<open>saveProfiles\<close> having recorded the new modification time of the file. The time
  \<open>saveProfiles\<close> records is \<open>Date.now()\<close>, read after the rename, while \<open>loadProfiles\<close>
  compares \<open>lastModified\<close> with the modification time of the file. Whenever the two
  differ, after every mutation that persisted, on a file system without faults, the file
  carries the one and the store has recorded the other, and the \<open>list\<close> or \<open>get\<close> that
  follows misses the cache: it calls \<open>stat\<close>, \<open>mkdir\<close> and \<open>readFile\<close> and decrypts again
  what the mutation has just encrypted.
\<close>

theorem mutation_then_read_reloads:
  "faults s = no_faults \<and> run_mutation K env mu s = (Inr True, s') \<and>
   mtime_written env \<noteq> now_saved env \<longrightarrow>
     map_option mtime (profilesFile s') = Some (mtime_written env) \<and>
     lastModified s' = now_saved env \<and>
     fst (loadProfiles K env' s') =
       Inr (decrypt_all K (encrypt_all K env (map_values (cachedProfiles s'))), Reloaded) \<and>
     fs_log (snd (list_profiles K env' s')) = fs_log s' @ [Stat, Mkdir, ReadFile] \<and>
     fs_log (snd (get K env' n s')) = fs_log s' @ [Stat, Mkdir, ReadFile]"
proof
  assume h: "faults s = no_faults \<and> run_mutation K env mu s = (Inr True, s') \<and>
   mtime_written env \<noteq> now_saved env"
  then have "run_mutation K env mu s = (Inr True, s')" by simp
  from mutation_written [OF this] obtain st where
    w: "profilesFile s' = Some (written K env (cachedProfiles s') st)"
      "lastModified s' = now_saved env" "faults s' = faults s"
    by blast
  let ?f = "written K env (cachedProfiles s') st"
  let ?st = "st\<lparr>profiles := encrypt_all K env (map_values (cachedProfiles s'))\<rparr>"
  from h w have z: "stat_fault (faults s') = None" "mkdir_fault (faults s') = None"
      "readFile_fault (faults s') = None"
    by (simp_all add: no_faults_def)
  have t: "mtime ?f = mtime_written env" "content ?f = Json ?st"
    by (simp_all add: written_def)
  from z w t have r: "loadStorage_result env' s' = Inr ?st"
    by (simp add: loadStorage_result_def)
  from h w t have miss: "mtime ?f \<noteq> lastModified s'"
    by simp
  from z w r miss have l: "loadProfiles K env' s' =
      (Inr (decrypt_all K (profiles ?st), Reloaded),
       (after_loadStorage (logged Stat s'))
         \<lparr>cachedProfiles := decrypt_all K (profiles ?st), lastModified := mtime ?f\<rparr>)"
    by (simp add: loadProfiles_eq)
  from z have g: "fs_log ((after_loadStorage (logged Stat s'))
         \<lparr>cachedProfiles := decrypt_all K (profiles ?st), lastModified := mtime ?f\<rparr>) =
      fs_log s' @ [Stat, Mkdir, ReadFile]"
    by (simp add: after_loadStorage_def)
  from w t have 1: "map_option mtime (profilesFile s') = Some (mtime_written env)"
    by simp
  from l have 3: "fst (loadProfiles K env' s') =
       Inr (decrypt_all K (encrypt_all K env (map_values (cachedProfiles s'))), Reloaded)"
    by simp
  from l g have 4: "fs_log (snd (list_profiles K env' s')) = fs_log s' @ [Stat, Mkdir, ReadFile]"
    by (simp add: list_profiles_def)
  from l g have 5: "fs_log (snd (get K env' n s')) = fs_log s' @ [Stat, Mkdir, ReadFile]"
    by (simp add: get_def)
  from 1 w(2) 3 4 5
  show "map_option mtime (profilesFile s') = Some (mtime_written env) \<and>
     lastModified s' = now_saved env \<and>
     fst (loadProfiles K env' s') =
       Inr (decrypt_all K (encrypt_all K env (map_values (cachedProfiles s'))), Reloaded) \<and>
     fs_log (snd (list_profiles K env' s')) = fs_log s' @ [Stat, Mkdir, ReadFile] \<and>
     fs_log (snd (get K env' n s')) = fs_log s' @ [Stat, Mkdir, ReadFile]"
    by (intro conjI)
qed

theorem mutation_then_read_reloads_witness:
  "faults fresh_store = no_faults \<and>
   run_mutation toy_cipher env0 (Add local_profile) fresh_store = (Inr True, store_with_local) \<and>
   mtime_written env0 = 1000 \<and> now_saved env0 = 1001 \<and>
   map_option mtime (profilesFile store_with_local) = Some 1000 \<and>
   lastModified store_with_local = 1001 \<and>
   cachedProfiles store_with_local = [(''local'', stamped env0 local_profile)] \<and>
   fst (loadProfiles toy_cipher env0 store_with_local) =
     Inr ([(''local'', stamped env0 local_profile)], Reloaded) \<and>
   fs_log (snd (list_profiles toy_cipher env0 store_with_local)) =
     fs_log store_with_local @ [Stat, Mkdir, ReadFile] \<and>
   fs_log (snd (get toy_cipher env0 ''local'' store_with_local)) =
     fs_log store_with_local @ [Stat, Mkdir, ReadFile]"
proof -
  have e: "mtime_written env0 = 1000" "now_saved env0 = 1001"
    by (simp_all add: env0_def)
  have a: "run_mutation toy_cipher env0 (Add local_profile) fresh_store = (Inr True, store_with_local)"
    by (simp add: add_local_fresh store_with_local_eq)
  have c: "cachedProfiles store_with_local = [(''local'', stamped env0 local_profile)]"
    by (simp add: store_with_local_eq)
  have d: "decrypt_all toy_cipher (encrypt_all toy_cipher env0
      (map_values [(''local'', stamped env0 local_profile)])) =
      [(''local'', stamped env0 local_profile)]"
    by (simp add: map_values_def encrypt_all_def decrypt_stamped_local)
  have h: "faults fresh_store = no_faults \<and>
      run_mutation toy_cipher env0 (Add local_profile) fresh_store = (Inr True, store_with_local) \<and>
      mtime_written env0 \<noteq> now_saved env0"
    using a e by (simp add: fresh_store_def)
  note r = mutation_then_read_reloads [of fresh_store toy_cipher env0 "Add local_profile"
      store_with_local env0 "''local''", THEN mp, OF h]
  from r e have 1: "map_option mtime (profilesFile store_with_local) = Some 1000"
    by simp
  from r e have 2: "lastModified store_with_local = 1001"
    by simp
  from r [THEN conjunct2, THEN conjunct2, THEN conjunct1]
  have 3: "fst (loadProfiles toy_cipher env0 store_with_local) =
     Inr ([(''local'', stamped env0 local_profile)], Reloaded)"
    by (simp add: c d)
  note 4 = r [THEN conjunct2, THEN conjunct2, THEN conjunct2, THEN conjunct1]
  note 5 = r [THEN conjunct2, THEN conjunct2, THEN conjunct2, THEN conjunct2]
  from h have 0: "faults fresh_store = no_faults" by simp
  from 0 a e 1 2 c 3 4 5 show ?thesis
    by (intro conjI)
qed

lemma save_after_load_ok:
  assumes "faults s = no_faults" "parseable s" "loadProfiles K env s = (r, s1)"
  shows "fst (saveProfiles K env m' (in_place path m' s1)) = Inr ()"
proof -
  from assms(3) loadProfiles_frame [of K env s] have
    fr: "profilesFile s1 = profilesFile s" "faults s1 = faults s"
    by simp_all
  then have c: "loadStorage_result env (in_place path m' s1) = loadStorage_result env s"
    by (intro loadStorage_result_cong) simp_all
  from assms(1,2) have "\<exists>st. loadStorage_result env s = Inr st"
    by (auto simp: loadStorage_result_def no_faults_def parseable_def
        split: option.splits json_text.splits)
  then obtain st where "loadStorage_result env s = Inr st" ..
  with c have "loadStorage_result env (in_place path m' s1) = Inr st" by simp
  moreover from assms(1) fr have "writeFile_fault (faults (in_place path m' s1)) = None"
      "rename_fault (faults (in_place path m' s1)) = None"
    by (simp_all add: no_faults_def)
  ultimately show ?thesis
    by (intro saveProfiles_healthy) 
qed

lemma loadProfiles_any_env_local:
  "loadProfiles toy_cipher env store_with_local =
     (Inr ([(''local'', stamped env0 local_profile)], Reloaded), reloaded_local)"
  by (simp add: loadProfiles_eq store_with_local_eq no_faults_def loadStorage_result_def
      decrypt_stamped_local after_loadStorage_def logged_def reloaded_local_def)

lemma store_with_local_healthy:
  "faults store_with_local = no_faults" "parseable store_with_local"
  by (simp_all add: store_with_local_eq parseable_def)

lemma remove_local_true:
  "remove toy_cipher env1 ''local'' store_with_local = (Inr True, emptied_store)"
proof -
  have "fst (saveProfiles toy_cipher env1 [] (in_place Reloaded [] reloaded_local)) = Inr ()"
    by (rule save_after_load_ok [OF store_with_local_healthy loadProfiles_any_env_local])
  then obtain s2 where "saveProfiles toy_cipher env1 [] (in_place Reloaded [] reloaded_local) =
      (Inr (), s2)"
    by (cases "saveProfiles toy_cipher env1 [] (in_place Reloaded [] reloaded_local)") auto
  then have "fst (remove toy_cipher env1 ''local'' store_with_local) = Inr True"
    by (simp add: remove_def loadProfiles_any_env_local map_delete_def map_has_def)
  then show ?thesis
    by (simp add: emptied_store_def prod_eq_iff)
qed

lemma setDefault_local_true:
  "setDefault toy_cipher env1 ''local'' store_with_local = (Inr True, defaulted_store)"
proof -
  let ?m = "map_set ''local'' (defaulted (stamped env0 local_profile))
      (clear_defaults [(''local'', stamped env0 local_profile)])"
  have "fst (saveProfiles toy_cipher env1 ?m (in_place Reloaded ?m reloaded_local)) = Inr ()"
    by (rule save_after_load_ok [OF store_with_local_healthy loadProfiles_any_env_local])
  then obtain s2 where "saveProfiles toy_cipher env1 ?m (in_place Reloaded ?m reloaded_local) =
      (Inr (), s2)"
    by (cases "saveProfiles toy_cipher env1 ?m (in_place Reloaded ?m reloaded_local)") auto
  then have "fst (setDefault toy_cipher env1 ''local'' store_with_local) = Inr True"
    by (simp add: setDefault_def loadProfiles_any_env_local map_get_def Let_def
        defaulted_def [symmetric])
  then show ?thesis
    by (simp add: defaulted_store_def prod_eq_iff)
qed

lemma loadProfiles_reload_empty_cache:
  assumes "faults s = no_faults" "profilesFile s = Some f" "content f = Json st"
    "cachedProfiles s = []"
  shows "fst (loadProfiles K env s) = Inr (decrypt_all K (profiles st), Reloaded)"
    and "fs_log (snd (loadProfiles K env s)) = fs_log s @ [Stat, Mkdir, ReadFile]"
proof -
  from assms(1) have z: "stat_fault (faults s) = None" "mkdir_fault (faults s) = None"
      "readFile_fault (faults s) = None"
    by (simp_all add: no_faults_def)
  with assms have r: "loadStorage_result env s = Inr st"
    by (simp add: loadStorage_result_def)
  from z assms r show "fst (loadProfiles K env s) = Inr (decrypt_all K (profiles st), Reloaded)"
    by (simp add: loadProfiles_eq)
  from z assms r show "fs_log (snd (loadProfiles K env s)) = fs_log s @ [Stat, Mkdir, ReadFile]"
    by (simp add: loadProfiles_eq after_loadStorage_def)
qed

lemma emptied_store_facts:
  "faults emptied_store = no_faults"
  "cachedProfiles emptied_store = []"
  "lastModified emptied_store = 2000"
  "profilesFile emptied_store =
     Some \<lparr>content = Json (local_storage\<lparr>profiles := []\<rparr>), mtime = 2000\<rparr>"
proof -
  have m: "run_mutation toy_cipher env1 (Remove ''local'') store_with_local = (Inr True, emptied_store)"
    by (simp add: remove_local_true)
  have c: "cachedProfiles emptied_store = []"
    using remove_local_true
    by (elim remove_true)
      (auto simp: loadProfiles_any_env_local map_delete_def dest!: saveProfiles_success)
  have r: "loadStorage_result env1 store_with_local = Inr local_storage"
    by (simp add: loadStorage_result_def store_with_local_eq no_faults_def local_storage_def)
  have t: "now_saved env1 = 2000" "mtime_written env1 = 2000"
    by (simp_all add: env1_def)
  from mutation_written [OF m] r c t store_with_local_healthy(1)
  show "faults emptied_store = no_faults" "lastModified emptied_store = 2000"
    "profilesFile emptied_store =
     Some \<lparr>content = Json (local_storage\<lparr>profiles := []\<rparr>), mtime = 2000\<rparr>"
    by (auto simp: written_def map_values_def)
  show "cachedProfiles emptied_store = []" by (rule c)
qed

text \<open>
  \<open>loadProfiles\<close> returns the cache only when it is not empty: after the only profile is
  removed, even with the file stamped with the very time the store recorded, the \<open>list\<close>
  that follows calls \<open>mkdir\<close> and \<open>readFile\<close> again.
\<close>

lemma read_after_last_remove_reloads:
  "run_mutation toy_cipher env1 (Remove ''local'') store_with_local = (Inr True, emptied_store) \<and>
   map_option mtime (profilesFile emptied_store) = Some (lastModified emptied_store) \<and>
   cachedProfiles emptied_store = [] \<and>
   fst (loadProfiles toy_cipher env1 emptied_store) = Inr ([], Reloaded) \<and>
   fs_log (snd (list_profiles toy_cipher env1 emptied_store)) =
     fs_log emptied_store @ [Stat, Mkdir, ReadFile]"
proof -
  note l = loadProfiles_reload_empty_cache [of emptied_store _ "local_storage\<lparr>profiles := []\<rparr>"
      toy_cipher env1, OF emptied_store_facts(1) emptied_store_facts(4) _ emptied_store_facts(2)]
  have a: "fst (loadProfiles toy_cipher env1 emptied_store) = Inr ([], Reloaded)"
    using l(1) by simp
  have b: "fs_log (snd (loadProfiles toy_cipher env1 emptied_store)) =
      fs_log emptied_store @ [Stat, Mkdir, ReadFile]"
    using l(2) by simp
  have c: "fs_log (snd (list_profiles toy_cipher env1 emptied_store)) =
      fs_log (snd (loadProfiles toy_cipher env1 emptied_store))"
    by (simp add: list_profiles_def split: prod.splits sum.splits)
  show ?thesis
    by (simp add: remove_local_true emptied_store_facts a b c)
qed

theorem mutation_keeps_container_fields_witness:
  "readFile_fault (faults store_with_local) = None \<and>
   profilesFile store_with_local = Some local_file \<and>
   content local_file = Json local_storage \<and>
   run_mutation toy_cipher env1 (SetDefault ''local'') store_with_local =
     (Inr True, defaulted_store) \<and>
   (\<exists>f' st'. profilesFile defaulted_store = Some f' \<and> content f' = Json st' \<and>
      version st' = ''2.0.0'' \<and> file_createdAt st' = now_iso env0 \<and>
      defaultProfile st' = None \<and>
      profiles st' = encrypt_all toy_cipher env1 (map_values (cachedProfiles defaulted_store)))"
proof -
  have h: "readFile_fault (faults store_with_local) = None \<and>
      profilesFile store_with_local = Some local_file \<and>
      content local_file = Json local_storage \<and>
      run_mutation toy_cipher env1 (SetDefault ''local'') store_with_local =
        (Inr True, defaulted_store)"
    by (simp add: setDefault_local_true)
      (simp add: store_with_local_eq no_faults_def local_file_def local_storage_def)
  note r = mutation_keeps_container_fields [of store_with_local local_file local_storage
      toy_cipher env1 "SetDefault ''local''" True defaulted_store, THEN mp, OF h]
  have v: "version local_storage = ''2.0.0''" "file_createdAt local_storage = now_iso env0"
      "defaultProfile local_storage = None"
    by (simp_all add: local_storage_def)
  from r v have "\<exists>f' st'. profilesFile defaulted_store = Some f' \<and> content f' = Json st' \<and>
      version st' = ''2.0.0'' \<and> file_createdAt st' = now_iso env0 \<and>
      defaultProfile st' = None \<and>
      profiles st' = encrypt_all toy_cipher env1 (map_values (cachedProfiles defaulted_store))"
    by simp
  with h show ?thesis
    by blast
qed

subsection \<open>Round trip of \<open>add\<close> and \<open>get\<close>\<close>

lemma map_of_map_set_same [simp]: "map_of (map_set k v m) k = Some v"
  by (induction m) auto

lemma map_of_map_set_other [simp]: "k' \<noteq> k \<Longrightarrow> map_of (map_set k v m) k' = map_of m k'"
  by (induction m) auto

lemma map_set_fresh: "map_of m k = None \<Longrightarrow> map_set k v m = m @ [(k, v)]"
  by (induction m) (auto split: if_splits)

lemma map_set_not_Nil [simp]: "map_set k v m \<noteq> []"
  by (cases m) (auto split: if_splits)

lemma encrypt_all_snoc:
  "encrypt_all K env (ps @ [p]) = encrypt_all K env ps @ [encryptProfile K env (length ps) p]"
  by (simp add: encrypt_all_def enumerate_append_eq)

lemma decrypt_all_snoc:
  "decrypt_all K (xs @ [x]) = decrypt_step K (decrypt_all K xs) x"
  by (simp add: decrypt_all_def)

lemma decrypt_encrypt:
  assumes "cipher_ok K"
  shows "\<exists>q. decryptProfile K (encryptProfile K env i p) = Some q \<and>
           name q = name p \<and> uri q = uri p \<and> database q = database p"
  using assms by (simp add: decryptProfile_def encryptProfile_def cipher_ok_def)

lemma reload_finds_added:
  assumes "cipher_ok K" "map_of m (name p) = None"
  shows "\<exists>q. map_get (decrypt_all K (encrypt_all K env (map_values (map_set (name p) p m)))) (name p)
              = Some q \<and>
           name q = name p \<and> uri q = uri p \<and> database q = database p"
proof -
  from decrypt_encrypt [OF assms(1), of env "length (map_values m)" p] obtain q where
    q: "decryptProfile K (encryptProfile K env (length (map_values m)) p) = Some q"
      "name q = name p" "uri q = uri p" "database q = database p"
    by blast
  have "decrypt_all K (encrypt_all K env (map_values (map_set (name p) p m))) =
      map_set (name p) q (decrypt_all K (encrypt_all K env (map_values m)))"
    by (simp add: map_set_fresh [OF assms(2)] map_values_def encrypt_all_snoc decrypt_all_snoc
        decrypt_step_def q [unfolded map_values_def, simplified])
  with q show ?thesis
    by (simp add: map_get_def)
qed

lemma stamped_fields [simp]:
  "name (stamped env p) = name p" "uri (stamped env p) = uri p"
  "database (stamped env p) = database p"
  by (simp_all add: stamped_def)

text \<open>
  Claim C1. With a cipher whose decryption undoes its encryption, on a file system
  without faults: after \<open>add P\<close> has succeeded, \<open>get\<close> of the name of \<open>P\<close> returns a profile
  with the \<open>name\<close>, \<open>uri\<close> and \<open>database\<close> of \<open>P\<close>, whether the read is served from the
  cache or, as happens when the recorded time differs from the modification time of the
  file, from the file, decrypted again. And the profile has gone through the file: a
  store object that holds nothing in its cache, over the file the \<open>add\<close> has left, calls
  \<open>stat\<close>, \<open>mkdir\<close> and \<open>readFile\<close> and its \<open>get\<close> of the name of \<open>P\<close> returns a profile
  with the \<open>name\<close>, \<open>uri\<close> and \<open>database\<close> of \<open>P\<close>, decrypted from what it read.
\<close>

theorem add_get_roundtrip:
  "cipher_ok K \<and> faults s = no_faults \<and> add K env p s = (Inr (), s') \<longrightarrow>
     (\<exists>q s''. get K env' (name p) s' = (Inr (Some q), s'') \<and>
        name q = name p \<and> uri q = uri p \<and> database q = database p) \<and>
     (\<forall>s0::store. profilesFile s0 = profilesFile s' \<and> faults s0 = no_faults \<and> cachedProfiles s0 = [] \<longrightarrow>
        (\<exists>q s''. get K env' (name p) s0 = (Inr (Some q), s'') \<and>
           name q = name p \<and> uri q = uri p \<and> database q = database p \<and>
           fs_log s'' = fs_log s0 @ [Stat, Mkdir, ReadFile] \<and>
           map_get (cachedProfiles s'') (name p) = Some q))"
proof (intro impI conjI allI)
  assume h: "cipher_ok K \<and> faults s = no_faults \<and> add K env p s = (Inr (), s')"
  then have a: "add K env p s = (Inr (), s')" by simp
  from a obtain m path s1 where
    l: "loadProfiles K env s = (Inr (m, path), s1)" and nh: "\<not> map_has m (name p)" and
    sv: "saveProfiles K env (map_set (name p) (stamped env p) m)
       (in_place path (map_set (name p) (stamped env p) m) s1) = (Inr (), s')"
    by (rule add_success)
  let ?m = "map_set (name p) (stamped env p) m"
  from saveProfiles_success [OF sv] obtain st where
    w: "profilesFile s' = Some (written K env ?m st)" "cachedProfiles s' = ?m"
      "faults s' = faults (in_place path ?m s1)"
    by blast
  from l loadProfiles_frame [of K env s] have "faults s1 = faults s" by simp
  with w h have nf: "faults s' = no_faults" by simp
  then have z: "stat_fault (faults s') = None" "mkdir_fault (faults s') = None"
      "readFile_fault (faults s') = None"
    by (simp_all add: no_faults_def)
  from nh have fresh: "map_of m (name p) = None"
    by (simp add: map_has_def)
  from z w have r: "loadStorage_result env' s' =
      Inr (st\<lparr>profiles := encrypt_all K env (map_values ?m)\<rparr>)"
    by (simp add: loadStorage_result_def written_def)
  from reload_finds_added [of K m "stamped env p" env] h fresh obtain q where
    q: "map_get (decrypt_all K (encrypt_all K env (map_values ?m))) (name p) = Some q"
      "name q = name p" "uri q = uri p" "database q = database p"
    by auto
  show "\<exists>q s''. get K env' (name p) s' = (Inr (Some q), s'') \<and>
        name q = name p \<and> uri q = uri p \<and> database q = database p"
  proof (cases "mtime (written K env ?m st) = lastModified s'")
    case True
    with z w have "loadProfiles K env' s' = (Inr (?m, CacheHit), logged Stat s')"
      by (simp add: loadProfiles_eq)
    then have "get K env' (name p) s' = (Inr (Some (stamped env p)), logged Stat s')"
      by (simp add: get_def map_get_def)
    then show ?thesis by simp
  next
    case False
    with z w r have "fst (loadProfiles K env' s') =
        Inr (decrypt_all K (encrypt_all K env (map_values ?m)), Reloaded)"
      by (simp add: loadProfiles_eq)
    then have "fst (get K env' (name p) s') = Inr (Some q)"
      by (auto simp: get_def q split: prod.splits sum.splits)
    with q show ?thesis
      by (metis prod.collapse)
  qed
  fix s0 :: store
  assume o: "profilesFile s0 = profilesFile s' \<and> faults s0 = no_faults \<and> cachedProfiles s0 = []"
  let ?st = "st\<lparr>profiles := encrypt_all K env (map_values ?m)\<rparr>"
  let ?loaded = "decrypt_all K (encrypt_all K env (map_values ?m))"
  from o have z0: "stat_fault (faults s0) = None" "mkdir_fault (faults s0) = None"
      "readFile_fault (faults s0) = None"
    by (simp_all add: no_faults_def)
  from o w have f0: "profilesFile s0 = Some (written K env ?m st)"
    by simp
  from z0 f0 have r0: "loadStorage_result env' s0 = Inr ?st"
    by (simp add: loadStorage_result_def written_def)
  from z0 f0 r0 o have l0: "loadProfiles K env' s0 =
      (Inr (?loaded, Reloaded),
       (after_loadStorage (logged Stat s0))
         \<lparr>cachedProfiles := ?loaded, lastModified := mtime (written K env ?m st)\<rparr>)"
    by (simp add: loadProfiles_eq)
  let ?s2 = "(after_loadStorage (logged Stat s0))
         \<lparr>cachedProfiles := ?loaded, lastModified := mtime (written K env ?m st)\<rparr>"
  from l0 q have g0: "get K env' (name p) s0 = (Inr (Some q), ?s2)"
    by (simp add: get_def)
  from z0 have lg: "fs_log ?s2 = fs_log s0 @ [Stat, Mkdir, ReadFile]"
    by (simp add: after_loadStorage_def)
  have ch: "map_get (cachedProfiles ?s2) (name p) = Some q"
    using q by simp
  from g0 q lg ch
  show "\<exists>q s''. get K env' (name p) s0 = (Inr (Some q), s'') \<and>
           name q = name p \<and> uri q = uri p \<and> database q = database p \<and>
           fs_log s'' = fs_log s0 @ [Stat, Mkdir, ReadFile] \<and>
           map_get (cachedProfiles s'') (name p) = Some q"
    by blast
qed

lemma toy_cipher_ok: "cipher_ok toy_cipher"
  by (simp add: cipher_ok_def toy_cipher_def)

theorem add_get_roundtrip_witness:
  "cipher_ok toy_cipher \<and> faults fresh_store = no_faults \<and>
   add toy_cipher env0 local_profile fresh_store = (Inr (), store_with_local) \<and>
   (\<exists>q s''. get toy_cipher env0 ''local'' store_with_local = (Inr (Some q), s'') \<and>
      name q = ''local'' \<and> uri q = ''mongodb://localhost:27017'' \<and> database q = None) \<and>
   profilesFile reopened_store = profilesFile store_with_local \<and>
   faults reopened_store = no_faults \<and> cachedProfiles reopened_store = [] \<and>
   (\<exists>q s''. get toy_cipher env0 ''local'' reopened_store = (Inr (Some q), s'') \<and>
      name q = ''local'' \<and> uri q = ''mongodb://localhost:27017'' \<and> database q = None \<and>
      fs_log s'' = [Stat, Mkdir, ReadFile])"
proof -
  have h: "cipher_ok toy_cipher \<and> faults fresh_store = no_faults \<and>
      add toy_cipher env0 local_profile fresh_store = (Inr (), store_with_local)"
    by (simp add: toy_cipher_ok add_local_fresh store_with_local_eq) (simp add: fresh_store_def)
  have f: "name local_profile = ''local''" "uri local_profile = ''mongodb://localhost:27017''"
      "database local_profile = None"
    by (simp_all add: local_profile_def)
  have o: "profilesFile reopened_store = profilesFile store_with_local \<and>
      faults reopened_store = no_faults \<and> cachedProfiles reopened_store = []"
    by (simp add: reopened_store_def fresh_store_def store_with_local_eq local_file_def)
  have lg: "fs_log reopened_store = []"
    by (simp add: reopened_store_def fresh_store_def)
  note r = add_get_roundtrip [of toy_cipher fresh_store env0 local_profile store_with_local env0,
      THEN mp, OF h]
  from r [THEN conjunct1] f
  have 1: "\<exists>q s''. get toy_cipher env0 ''local'' store_with_local = (Inr (Some q), s'') \<and>
      name q = ''local'' \<and> uri q = ''mongodb://localhost:27017'' \<and> database q = None"
    by simp
  from r [THEN conjunct2, THEN spec, THEN mp, OF o] f lg
  have 2: "\<exists>q s''. get toy_cipher env0 ''local'' reopened_store = (Inr (Some q), s'') \<and>
      name q = ''local'' \<and> uri q = ''mongodb://localhost:27017'' \<and> database q = None \<and>
      fs_log s'' = [Stat, Mkdir, ReadFile]"
    by auto
  from h o 1 2 show ?thesis
    by blast
qed

subsection \<open>\<open>setDefault\<close>\<close>

lemma is_default_clear_default [simp]: "\<not> is_default (clear_default p)"
  by (simp add: clear_default_def is_default_def)

lemma is_default_defaulted [simp]: "is_default (defaulted p)"
  by (simp add: defaulted_def is_default_def)

lemma default_entries_clear [simp]: "default_entries (clear_defaults m) = []"
  by (induction m) (auto simp: default_entries_def clear_defaults_def)

lemma default_entries_map_set:
  "default_entries m = [] \<Longrightarrow> is_default v \<Longrightarrow> default_entries (map_set k v m) = [(k, v)]"
  by (induction m) (auto simp: default_entries_def)

lemma only_default_after:
  "only_default n (map_set n (defaulted p) (clear_defaults m))"
  by (simp add: only_default_def default_entries_map_set)

lemma only_default_others:
  assumes "only_default n m" "(k, q) \<in> set m" "k \<noteq> n"
  shows "\<not> is_default q"
proof
  assume "is_default q"
  with assms(2) have "(k, q) \<in> set (default_entries m)"
    by (simp add: default_entries_def)
  with assms(1,3) show False
    by (auto simp: only_default_def split: list.splits)
qed

lemma stored_is_default_encrypt [simp]:
  "stored_is_default (encryptProfile K env i p) = is_default p"
  by (simp add: stored_is_default_def encryptProfile_def is_default_def empty_metadata_def
      split: option.splits)

lemma stored_flags_from:
  "map stored_is_default (map (\<lambda>(i, p). encryptProfile K env i p) (enumerate k ps)) =
     map is_default ps"
  by (induction ps arbitrary: k) simp_all

lemma stored_flags:
  "map stored_is_default (encrypt_all K env ps) = map is_default ps"
  unfolding encrypt_all_def by (rule stored_flags_from)

lemma setDefault_absent:
  assumes "loadProfiles K env s = (Inr (m, path), s1)" "map_get m n = None"
  shows "setDefault K env n s = (Inr False, s1)"
  using assms by (simp add: setDefault_def)

lemma setDefault_present:
  assumes "faults s = no_faults" "parseable s"
    "loadProfiles K env s = (Inr (m, path), s1)" "map_get m n = Some p"
  shows "\<exists>s' st. setDefault K env n s = (Inr True, s') \<and>
           cachedProfiles s' = map_set n (defaulted p) (clear_defaults m) \<and>
           fs_log s' = fs_log s1 @ [Mkdir, ReadFile, WriteFile, Rename] \<and>
           profilesFile s' = Some (written K env (cachedProfiles s') st)"
proof -
  let ?m = "map_set n (defaulted p) (clear_defaults m)"
  have "fst (saveProfiles K env ?m (in_place path ?m s1)) = Inr ()"
    by (rule save_after_load_ok [OF assms(1,2,3)])
  then obtain s' where sv: "saveProfiles K env ?m (in_place path ?m s1) = (Inr (), s')"
    by (cases "saveProfiles K env ?m (in_place path ?m s1)") auto
  from assms(3,4) sv have "setDefault K env n s = (Inr True, s')"
    by (simp add: setDefault_def Let_def defaulted_def [symmetric])
  with saveProfiles_success [OF sv] show ?thesis
    by auto
qed

lemma setDefault_true_only:
  assumes "setDefault K env n s = (Inr True, s')"
  shows "only_default n (cachedProfiles s')"
  using assms
  by (elim setDefault_true) (auto dest!: saveProfiles_success simp: only_default_after)

text \<open>
  Claim C5. When the loaded profiles hold no profile of the name, \<open>setDefault\<close> returns
  false and the store is as the read left it, the file and the temporary file untouched.
  When they hold one (the file system without faults, the file absent or parseable),
  \<open>setDefault\<close> returns true; the map it leaves in the cache is the loaded one with the
  flag cleared on every default entry and set on the target; the target is the only
  default entry; after the read the file system saw one \<open>mkdir\<close>, one \<open>readFile\<close>, one
  \<open>writeFile\<close> and one \<open>rename\<close>; and the file holds the encryption of that map, flag
  for flag. After \<open>setDefault a\<close> and then \<open>setDefault b\<close>, both returning true and
  \<open>a \<noteq> b\<close>, the only default entry is that of \<open>b\<close>, and no entry of \<open>a\<close> is a default.
\<close>

theorem setDefault_behaviour:
  "(loadProfiles K env s = (Inr (m, path), s1) \<and> map_get m n = None \<longrightarrow>
      setDefault K env n s = (Inr False, s1) \<and>
      profilesFile s1 = profilesFile s \<and> tempFile s1 = tempFile s) \<and>
   (faults s = no_faults \<and> parseable s \<and>
    loadProfiles K env s = (Inr (m, path), s1) \<and> map_get m n = Some p \<longrightarrow>
      (\<exists>s' st. setDefault K env n s = (Inr True, s') \<and>
         cachedProfiles s' = map_set n (defaulted p) (clear_defaults m) \<and>
         only_default n (cachedProfiles s') \<and>
         fs_log s' = fs_log s1 @ [Mkdir, ReadFile, WriteFile, Rename] \<and>
         profilesFile s' = Some (written K env (cachedProfiles s') st) \<and>
         map stored_is_default (encrypt_all K env (map_values (cachedProfiles s'))) =
           map is_default (map_values (cachedProfiles s')))) \<and>
   (a \<noteq> b \<and> setDefault K env a s = (Inr True, sa) \<and> setDefault K env' b sa = (Inr True, sb) \<longrightarrow>
      only_default a (cachedProfiles sa) \<and> only_default b (cachedProfiles sb) \<and>
      (\<forall>q. (a, q) \<in> set (cachedProfiles sb) \<longrightarrow> \<not> is_default q))"
proof (intro conjI impI)
  assume h: "loadProfiles K env s = (Inr (m, path), s1) \<and> map_get m n = None"
  then show "setDefault K env n s = (Inr False, s1)"
    by (simp add: setDefault_absent)
  from h loadProfiles_frame [of K env s]
  show "profilesFile s1 = profilesFile s" "tempFile s1 = tempFile s"
    by simp_all
next
  assume h: "faults s = no_faults \<and> parseable s \<and>
    loadProfiles K env s = (Inr (m, path), s1) \<and> map_get m n = Some p"
  then obtain s' st where
    r: "setDefault K env n s = (Inr True, s')"
      "cachedProfiles s' = map_set n (defaulted p) (clear_defaults m)"
      "fs_log s' = fs_log s1 @ [Mkdir, ReadFile, WriteFile, Rename]"
      "profilesFile s' = Some (written K env (cachedProfiles s') st)"
    using setDefault_present [of s K env m path s1 n p] by blast
  from r(2) have "only_default n (cachedProfiles s')"
    by (simp add: only_default_after)
  with r stored_flags [of K env "map_values (cachedProfiles s')"]
  show "\<exists>s' st. setDefault K env n s = (Inr True, s') \<and>
         cachedProfiles s' = map_set n (defaulted p) (clear_defaults m) \<and>
         only_default n (cachedProfiles s') \<and>
         fs_log s' = fs_log s1 @ [Mkdir, ReadFile, WriteFile, Rename] \<and>
         profilesFile s' = Some (written K env (cachedProfiles s') st) \<and>
         map stored_is_default (encrypt_all K env (map_values (cachedProfiles s'))) =
           map is_default (map_values (cachedProfiles s'))"
    by blast
next
  assume h: "a \<noteq> b \<and> setDefault K env a s = (Inr True, sa) \<and>
    setDefault K env' b sa = (Inr True, sb)"
  then show "only_default a (cachedProfiles sa)"
    by (blast intro: setDefault_true_only)
  from h show ob: "only_default b (cachedProfiles sb)"
    by (blast intro: setDefault_true_only)
  from h ob show "\<forall>q. (a, q) \<in> set (cachedProfiles sb) \<longrightarrow> \<not> is_default q"
    by (auto dest: only_default_others)
qed

lemma parseable_written:
  "profilesFile s = Some (written K env m st) \<Longrightarrow> parseable s"
  by (simp add: parseable_def written_def)

lemma persisted_then_hit:
  assumes "run_mutation K env mu s = (Inr True, s')" "faults s = no_faults"
    "mtime_written env = now_saved env" "cachedProfiles s' \<noteq> []"
  shows "loadProfiles K env' s' = (Inr (cachedProfiles s', CacheHit), logged Stat s')"
    and "faults s' = no_faults" and "parseable s'"
proof -
  from mutation_written [OF assms(1)] obtain st where
    w: "profilesFile s' = Some (written K env (cachedProfiles s') st)"
      "lastModified s' = now_saved env" "faults s' = faults s"
    by blast
  from w assms(2) show nf: "faults s' = no_faults" by simp
  from w(1) show "parseable s'" by (rule parseable_written)
  have "mtime (written K env (cachedProfiles s') st) = lastModified s'"
    by (simp add: written_def w(2) assms(3))
  with w(1) nf assms(4) show
    "loadProfiles K env' s' = (Inr (cachedProfiles s', CacheHit), logged Stat s')"
    by (intro loadProfiles_hit) (simp_all add: no_faults_def)
qed

lemma is_default_stamped [simp]: "is_default (stamped env p) = is_default p"
  by (simp add: stamped_def is_default_def spread_metadata_def empty_metadata_def
      split: option.splits)

lemma clear_default_id: "\<not> is_default p \<Longrightarrow> clear_default p = p"
  by (simp add: clear_default_def)

lemma not_default_inputs [simp]:
  "\<not> is_default local_profile" "\<not> is_default staging_profile"
  by (simp_all add: is_default_def local_profile_def staging_profile_def)

lemma env1_times: "mtime_written env1 = now_saved env1"
  by (simp add: env1_def)

lemma validate_staging: "validateProfile staging_profile = None"
  by (simp add: validateProfile_def staging_profile_def local_profile_def name_chars_def
      startsWith_def)

lemma add_staging:
  "add toy_cipher env1 staging_profile store_with_local = (Inr (), two_store)"
  "cachedProfiles two_store = two_map"
proof -
  let ?m = "map_set ''staging'' (stamped env1 staging_profile) [(''local'', stamped env0 local_profile)]"
  have n: "name staging_profile = ''staging''"
    by (simp add: staging_profile_def)
  have "fst (saveProfiles toy_cipher env1 ?m (in_place Reloaded ?m reloaded_local)) = Inr ()"
    by (rule save_after_load_ok [OF store_with_local_healthy loadProfiles_any_env_local])
  then obtain s2 where sv: "saveProfiles toy_cipher env1 ?m (in_place Reloaded ?m reloaded_local) =
      (Inr (), s2)"
    by (cases "saveProfiles toy_cipher env1 ?m (in_place Reloaded ?m reloaded_local)") auto
  then have a: "add toy_cipher env1 staging_profile store_with_local = (Inr (), s2)"
    by (simp add: add_def validate_staging loadProfiles_any_env_local map_has_def n Let_def
        stamped_def [symmetric])
  then show "add toy_cipher env1 staging_profile store_with_local = (Inr (), two_store)"
    by (simp add: two_store_def)
  from a have "two_store = s2" by (simp add: two_store_def)
  with saveProfiles_success [OF sv] show "cachedProfiles two_store = two_map"
    by (auto simp: two_map_def)
qed

lemma two_store_facts:
  "loadProfiles toy_cipher env' two_store = (Inr (two_map, CacheHit), logged Stat two_store)"
  "faults two_store = no_faults" "parseable two_store"
proof -
  have m: "run_mutation toy_cipher env1 (Add staging_profile) store_with_local = (Inr True, two_store)"
    by (simp add: add_staging)
  have ne: "cachedProfiles two_store \<noteq> []"
    by (simp add: add_staging two_map_def)
  note p = persisted_then_hit [OF m store_with_local_healthy(1) env1_times ne]
  from p(1) show "loadProfiles toy_cipher env' two_store = (Inr (two_map, CacheHit), logged Stat two_store)"
    by (simp add: add_staging)
  from p(2) show "faults two_store = no_faults" .
  from p(3) show "parseable two_store" .
qed

lemma two_map_lookup:
  "map_get two_map ''local'' = Some (stamped env0 local_profile)"
  "map_get two_map ''staging'' = Some (stamped env1 staging_profile)"
  "map_get two_map ''production'' = None"
  by (simp_all add: two_map_def map_get_def)

lemma map_a_eq: "map_set ''local'' (defaulted (stamped env0 local_profile)) (clear_defaults two_map) = map_a"
  by (simp add: two_map_def map_a_def clear_defaults_def clear_default_id)

lemma map_b_eq: "map_set ''staging'' (defaulted (stamped env1 staging_profile)) (clear_defaults map_a) = map_b"
  by (simp add: map_a_def map_b_def clear_defaults_def clear_default_id)

lemma store_a_facts:
  "setDefault toy_cipher env1 ''local'' two_store = (Inr True, store_a)"
  "cachedProfiles store_a = map_a"
  "loadProfiles toy_cipher env' store_a = (Inr (map_a, CacheHit), logged Stat store_a)"
  "faults store_a = no_faults" "parseable store_a"
proof -
  from setDefault_present [OF two_store_facts(2,3) two_store_facts(1) two_map_lookup(1), of env1]
  obtain s' where r: "setDefault toy_cipher env1 ''local'' two_store = (Inr True, s')"
    "cachedProfiles s' = map_a"
    by (auto simp: map_a_eq)
  then have e: "store_a = s'" by (simp add: store_a_def)
  with r show a: "setDefault toy_cipher env1 ''local'' two_store = (Inr True, store_a)"
    and c: "cachedProfiles store_a = map_a"
    by simp_all
  have m: "run_mutation toy_cipher env1 (SetDefault ''local'') two_store = (Inr True, store_a)"
    by (simp add: a)
  have ne: "cachedProfiles store_a \<noteq> []"
    by (simp add: c map_a_def)
  note p = persisted_then_hit [OF m two_store_facts(2) env1_times ne]
  from p(1) show "loadProfiles toy_cipher env' store_a = (Inr (map_a, CacheHit), logged Stat store_a)"
    by (simp add: c)
  from p(2) show "faults store_a = no_faults" .
  from p(3) show "parseable store_a" .
qed

lemma map_a_lookup: "map_get map_a ''staging'' = Some (stamped env1 staging_profile)"
  by (simp add: map_a_def map_get_def)

lemma store_b_facts:
  "setDefault toy_cipher env1 ''staging'' store_a = (Inr True, store_b)"
  "cachedProfiles store_b = map_b"
proof -
  from setDefault_present [OF store_a_facts(4,5) store_a_facts(3) map_a_lookup, of env1]
  obtain s' where r: "setDefault toy_cipher env1 ''staging'' store_a = (Inr True, s')"
    "cachedProfiles s' = map_b"
    by (auto simp: map_b_eq)
  then have e: "store_b = s'" by (simp add: store_b_def)
  with r show "setDefault toy_cipher env1 ''staging'' store_a = (Inr True, store_b)"
    and "cachedProfiles store_b = map_b"
    by simp_all
qed

theorem setDefault_behaviour_witness:
  "loadProfiles toy_cipher env1 two_store = (Inr (two_map, CacheHit), logged Stat two_store) \<and>
   map_get two_map ''production'' = None \<and>
   setDefault toy_cipher env1 ''production'' two_store = (Inr False, logged Stat two_store) \<and>
   profilesFile (logged Stat two_store) = profilesFile two_store \<and>
   faults two_store = no_faults \<and> parseable two_store \<and>
   map_get two_map ''local'' = Some (stamped env0 local_profile) \<and>
   setDefault toy_cipher env1 ''local'' two_store = (Inr True, store_a) \<and>
   ''local'' \<noteq> ''staging'' \<and>
   setDefault toy_cipher env1 ''staging'' store_a = (Inr True, store_b) \<and>
   only_default ''local'' (cachedProfiles store_a) \<and>
   only_default ''staging'' (cachedProfiles store_b) \<and>
   cachedProfiles store_b = map_b"
proof -
  have h1: "loadProfiles toy_cipher env1 two_store = (Inr (two_map, CacheHit), logged Stat two_store) \<and>
      map_get two_map ''production'' = None"
    by (simp add: two_store_facts two_map_lookup)
  have h2: "faults two_store = no_faults \<and> parseable two_store \<and>
      loadProfiles toy_cipher env1 two_store = (Inr (two_map, CacheHit), logged Stat two_store) \<and>
      map_get two_map ''local'' = Some (stamped env0 local_profile)"
    by (simp add: two_store_facts two_map_lookup)
  have h3: "''local'' \<noteq> ''staging'' \<and>
      setDefault toy_cipher env1 ''local'' two_store = (Inr True, store_a) \<and>
      setDefault toy_cipher env1 ''staging'' store_a = (Inr True, store_b)"
    by (simp add: store_a_facts store_b_facts)
  note t1 = setDefault_behaviour [of toy_cipher env1 two_store two_map CacheHit
      "logged Stat two_store" "''production''", THEN conjunct1, THEN mp, OF h1]
  note t2 = setDefault_behaviour [of toy_cipher env1 two_store two_map CacheHit
      "logged Stat two_store" "''local''" "stamped env0 local_profile",
      THEN conjunct2, THEN conjunct1, THEN mp, OF h2]
  note t3 = setDefault_behaviour [where K = toy_cipher and env = env1 and env' = env1
      and s = two_store and a = "''local''" and b = "''staging''" and sa = store_a and sb = store_b,
      THEN conjunct2, THEN conjunct2, THEN mp, OF h3]
  from t1 have 1: "setDefault toy_cipher env1 ''production'' two_store = (Inr False, logged Stat two_store)"
      "profilesFile (logged Stat two_store) = profilesFile two_store"
    by simp_all
  from t2 have 2: "setDefault toy_cipher env1 ''local'' two_store = (Inr True, store_a)"
    by (auto simp: store_a_def)
  from t3 have 3: "only_default ''local'' (cachedProfiles store_a)"
      "only_default ''staging'' (cachedProfiles store_b)"
    by simp_all
  from h1 h2 h3 1 2 3 store_b_facts(2) show ?thesis
    by simp
qed

subsection \<open>At most one default profile\<close>

lemma count_map_set_le:
  "length (default_entries (map_set k v m)) \<le>
     length (default_entries m) + (if is_default v then 1 else 0)"
  by (induction m) (auto simp: default_entries_def)

lemma count_map_set_replace:
  "map_of m k = Some old \<Longrightarrow> (is_default v \<longrightarrow> is_default old) \<Longrightarrow>
   length (default_entries (map_set k v m)) \<le> length (default_entries m)"
  by (induction m) (auto simp: default_entries_def)

lemma count_filter_le:
  "length (default_entries (filter P m)) \<le> length (default_entries m)"
  by (induction m) (auto simp: default_entries_def)

lemma is_default_decrypt:
  "decryptProfile K stored = Some p \<Longrightarrow> is_default p = stored_is_default stored"
  by (auto simp: decryptProfile_def is_default_def stored_is_default_def split: option.splits)

lemma count_decrypt_fold:
  "length (default_entries (foldl (decrypt_step K) acc sts)) \<le>
     length (default_entries acc) + length (filter stored_is_default sts)"
proof (induction sts arbitrary: acc)
  case Nil
  show ?case by simp
next
  case (Cons x xs)
  have "length (default_entries (decrypt_step K acc x)) \<le>
      length (default_entries acc) + (if stored_is_default x then 1 else 0)"
  proof (cases "decryptProfile K x")
    case None
    then show ?thesis by (simp add: decrypt_step_def)
  next
    case (Some p)
    with count_map_set_le [of "name p" p acc] is_default_decrypt [OF Some] show ?thesis
      by (simp add: decrypt_step_def)
  qed
  with Cons.IH [of "decrypt_step K acc x"] show ?case
    by (simp split: if_splits)
qed

lemma count_decrypt_all:
  "length (default_entries (decrypt_all K sts)) \<le> length (filter stored_is_default sts)"
  using count_decrypt_fold [of K "[]" sts] by (simp add: decrypt_all_def default_entries_def)

lemma length_filter_map: "length (filter P (map f xs)) = length (filter (\<lambda>x. P (f x)) xs)"
  by (induction xs) auto

lemma count_encrypt_all:
  "length (filter stored_is_default (encrypt_all K env (map_values m))) = length (default_entries m)"
proof -
  have "length (filter stored_is_default (encrypt_all K env (map_values m))) =
      length (filter id (map stored_is_default (encrypt_all K env (map_values m))))"
    by (simp add: length_filter_map)
  also have "\<dots> = length (filter id (map is_default (map_values m)))"
    by (simp only: stored_flags)
  also have "\<dots> = length (default_entries m)"
    by (simp add: length_filter_map map_values_def default_entries_def comp_def)
  finally show ?thesis .
qed

lemma roundtrip_at_most_one:
  "at_most_one_default m \<Longrightarrow>
   at_most_one_default (decrypt_all K (encrypt_all K env (map_values m)))"
  using count_decrypt_all [of K "encrypt_all K env (map_values m)"] count_encrypt_all [of K env m]
  by (simp add: at_most_one_default_def)

lemma disk_view_cong: "profilesFile a = profilesFile b \<Longrightarrow> disk_view K a = disk_view K b"
  by (simp add: disk_view_def)

lemma disk_view_simps [simp]:
  "disk_view K (logged ev s) = disk_view K s"
  "disk_view K (after_loadStorage s) = disk_view K s"
  "disk_view K (s\<lparr>cachedProfiles := c\<rparr>) = disk_view K s"
  "disk_view K (s\<lparr>lastModified := t\<rparr>) = disk_view K s"
  by (simp_all add: disk_view_def)

lemma at_most_one_Nil [simp]: "at_most_one_default []"
  by (simp add: at_most_one_default_def default_entries_def)

lemma store_inv_cong:
  "profilesFile a = profilesFile b \<Longrightarrow> cachedProfiles a = cachedProfiles b \<Longrightarrow>
   store_inv K a = store_inv K b"
  by (simp add: store_inv_def disk_view_cong [of a b])

lemma store_inv_logged [simp]: "store_inv K (logged ev s) = store_inv K s"
  by (rule store_inv_cong) simp_all

lemma store_inv_after_loadStorage [simp]: "store_inv K (after_loadStorage s) = store_inv K s"
  by (rule store_inv_cong) simp_all

lemma loadProfiles_inv:
  assumes "store_inv K s" "loadProfiles K env s = (r, s1)"
  shows "store_inv K s1"
    and "r = Inr (m, path) \<Longrightarrow> at_most_one_default m"
proof -
  have d: "\<And>f st. profilesFile s = Some f \<Longrightarrow> loadStorage_result env s = Inr st \<Longrightarrow>
      mkdir_fault (faults s) = None \<Longrightarrow> readFile_fault (faults s) = None \<Longrightarrow>
      decrypt_all K (profiles st) = disk_view K s"
    by (auto simp: loadStorage_result_def disk_view_def split: json_text.splits)
  have e: "\<And>f st c. profilesFile s = Some f \<Longrightarrow> loadStorage_result env s = Inr st \<Longrightarrow>
      readFile_fault (faults s) = Some c \<Longrightarrow> profiles st = []"
    by (auto simp: loadStorage_result_def empty_storage_def split: option.splits if_splits)
  have v: "\<And>f st. profilesFile s = Some f \<Longrightarrow> loadStorage_result env s = Inr st \<Longrightarrow>
      at_most_one_default (decrypt_all K (profiles st))"
  proof -
    fix f st
    assume a: "profilesFile s = Some f" "loadStorage_result env s = Inr st"
    then have mk: "mkdir_fault (faults s) = None"
      by (simp add: loadStorage_result_Inr_mkdir)
    show "at_most_one_default (decrypt_all K (profiles st))"
    proof (cases "readFile_fault (faults s)")
      case None
      with d [OF a mk] assms(1) show ?thesis
        by (simp add: store_inv_def)
    next
      case (Some c)
      with e [OF a] show ?thesis by simp
    qed
  qed
  have s1: "s1 = snd (loadProfiles K env s)" and r: "r = fst (loadProfiles K env s)"
    using assms(2) by simp_all
  from assms(1) v show "store_inv K s1"
    unfolding s1
    by (auto simp: loadProfiles_eq loadProfiles_catch_def store_inv_def
        split: option.splits sum.splits)
  assume "r = Inr (m, path)"
  with assms(1) v r show "at_most_one_default m"
    by (auto simp: loadProfiles_eq loadProfiles_catch_def store_inv_def
        split: option.splits sum.splits if_splits)
qed

lemma in_place_inv:
  "store_inv K s \<Longrightarrow> at_most_one_default m \<Longrightarrow> store_inv K (in_place path m s)"
  by (simp add: in_place_def store_inv_def disk_view_def)

lemma saveProfiles_inv:
  assumes "store_inv K s" "at_most_one_default m" "saveProfiles K env m s = (r, s')"
  shows "store_inv K s'"
proof (cases r)
  case (Inl e)
  with assms(3) saveProfiles_failure [of K env m s e s'] have
    "profilesFile s' = profilesFile s" "cachedProfiles s' = cachedProfiles s"
    by simp_all
  with assms(1) store_inv_cong [of s' s K] show ?thesis by simp
next
  case (Inr u)
  with assms(3) saveProfiles_success [of K env m s u s'] obtain st where
    "profilesFile s' = Some (written K env m st)" "cachedProfiles s' = m"
    by auto
  with assms(2) roundtrip_at_most_one [of m K env] show ?thesis
    by (simp add: store_inv_def disk_view_def written_def)
qed

lemma save_in_place_inv:
  assumes "store_inv K s1" "at_most_one_default m"
  shows "store_inv K (snd (saveProfiles K env m (in_place path m s1)))"
proof -
  have "saveProfiles K env m (in_place path m s1) =
      (fst (saveProfiles K env m (in_place path m s1)),
       snd (saveProfiles K env m (in_place path m s1)))"
    by simp
  from saveProfiles_inv [OF in_place_inv [OF assms] assms(2) this] show ?thesis .
qed

lemma only_default_at_most_one: "only_default n m \<Longrightarrow> at_most_one_default m"
  by (auto simp: only_default_def at_most_one_default_def split: list.splits)

lemma at_most_one_mono:
  "at_most_one_default m \<Longrightarrow> length (default_entries m') \<le> length (default_entries m) \<Longrightarrow>
   at_most_one_default m'"
  by (simp add: at_most_one_default_def)

lemma setDefault_inv:
  assumes "store_inv K s"
  shows "store_inv K (snd (setDefault K env n s))"
proof -
  obtain r s1 where l: "loadProfiles K env s = (r, s1)"
    by (cases "loadProfiles K env s")
  note i1 = loadProfiles_inv(1) [OF assms l]
  show ?thesis
  proof (cases r)
    case (Inl e)
    with l i1 show ?thesis by (simp add: setDefault_def)
  next
    case (Inr mp)
    obtain m path where mp: "mp = (m, path)" by (cases mp)
    show ?thesis
    proof (cases "map_get m n")
      case None
      with l Inr mp i1 show ?thesis by (simp add: setDefault_def)
    next
      case (Some p)
      let ?m = "map_set n (defaulted p) (clear_defaults m)"
      from l Inr mp Some have "snd (setDefault K env n s) =
          snd (saveProfiles K env ?m (in_place path ?m s1))"
        by (simp add: setDefault_def Let_def split: prod.splits sum.splits)
      moreover have "at_most_one_default ?m"
        by (rule only_default_at_most_one [OF only_default_after])
      ultimately show ?thesis
        using save_in_place_inv [OF i1] by simp
    qed
  qed
qed

lemma remove_inv:
  assumes "store_inv K s"
  shows "store_inv K (snd (remove K env n s))"
proof -
  obtain r s1 where l: "loadProfiles K env s = (r, s1)"
    by (cases "loadProfiles K env s")
  note i1 = loadProfiles_inv(1) [OF assms l]
  show ?thesis
  proof (cases r)
    case (Inl e)
    with l i1 show ?thesis by (simp add: remove_def)
  next
    case (Inr mp)
    obtain m path where mp: "mp = (m, path)" by (cases mp)
    let ?m = "filter (\<lambda>kv. fst kv \<noteq> n) m"
    from loadProfiles_inv(2) [OF assms l, of m path] Inr mp have "at_most_one_default m"
      by simp
    then have a: "at_most_one_default ?m"
      by (rule at_most_one_mono) (rule count_filter_le)
    show ?thesis
    proof (cases "map_has m n")
      case True
      with l Inr mp have "snd (remove K env n s) =
          snd (saveProfiles K env ?m (in_place path ?m s1))"
        by (simp add: remove_def map_delete_def split: prod.splits sum.splits)
      with save_in_place_inv [OF i1 a] show ?thesis by simp
    next
      case False
      with l Inr mp have "snd (remove K env n s) = in_place path ?m s1"
        by (simp add: remove_def map_delete_def)
      with in_place_inv [OF i1 a] show ?thesis by simp
    qed
  qed
qed

lemma add_inv:
  assumes "store_inv K s" "\<not> is_default p"
  shows "store_inv K (snd (add K env p s))"
proof (cases "validateProfile p")
  case (Some e)
  with assms(1) show ?thesis by (simp add: add_def)
next
  case None
  obtain r s1 where l: "loadProfiles K env s = (r, s1)"
    by (cases "loadProfiles K env s")
  note i1 = loadProfiles_inv(1) [OF assms(1) l]
  show ?thesis
  proof (cases r)
    case (Inl e)
    with l i1 None show ?thesis by (simp add: add_def)
  next
    case (Inr mp)
    obtain m path where mp: "mp = (m, path)" by (cases mp)
    let ?m = "map_set (name p) (stamped env p) m"
    from loadProfiles_inv(2) [OF assms(1) l, of m path] Inr mp have "at_most_one_default m"
      by simp
    moreover from assms(2) have "length (default_entries ?m) \<le> length (default_entries m)"
      using count_map_set_le [of "name p" "stamped env p" m] by simp
    ultimately have a: "at_most_one_default ?m"
      by (rule at_most_one_mono)
    show ?thesis
    proof (cases "map_has m (name p)")
      case True
      with l Inr mp None i1 show ?thesis by (simp add: add_def)
    next
      case False
      with l Inr mp None have "snd (add K env p s) =
          snd (saveProfiles K env ?m (in_place path ?m s1))"
        by (simp add: add_def Let_def)
      with save_in_place_inv [OF i1 a] show ?thesis by simp
    qed
  qed
qed

lemma is_default_merge:
  "\<not> sets_default u \<Longrightarrow> is_default (merge_profile n existing u) \<Longrightarrow> is_default existing"
  by (cases "isDefault_u (the (metadata_u u))")
    (auto simp: sets_default_def merge_profile_def merge_metadata_def is_default_def
      spread_metadata_def empty_metadata_def Let_def split: option.splits)

lemma update_inv:
  assumes "store_inv K s" "\<not> sets_default u"
  shows "store_inv K (snd (update K env n u s))"
proof -
  obtain r s1 where l: "loadProfiles K env s = (r, s1)"
    by (cases "loadProfiles K env s")
  note i1 = loadProfiles_inv(1) [OF assms(1) l]
  show ?thesis
  proof (cases r)
    case (Inl e)
    with l i1 show ?thesis by (simp add: update_def)
  next
    case (Inr mp)
    obtain m path where mp: "mp = (m, path)" by (cases mp)
    from loadProfiles_inv(2) [OF assms(1) l, of m path] Inr mp have am: "at_most_one_default m"
      by simp
    show ?thesis
    proof (cases "map_get m n")
      case None
      with l Inr mp i1 show ?thesis by (simp add: update_def)
    next
      case (Some existing)
      let ?u = "merge_profile n existing u"
      let ?m = "map_set n ?u m"
      show ?thesis
      proof (cases "validateProfile ?u")
        case (Some e)
        with l Inr mp \<open>map_get m n = Some existing\<close> i1 show ?thesis
          by (simp add: update_def Let_def)
      next
        case None
        from \<open>map_get m n = Some existing\<close> have "map_of m n = Some existing"
          by (simp add: map_get_def)
        then have "length (default_entries ?m) \<le> length (default_entries m)"
          using is_default_merge [OF assms(2), of n existing]
          by (intro count_map_set_replace) auto
        with am have a: "at_most_one_default ?m"
          by (rule at_most_one_mono)
        from l Inr mp \<open>map_get m n = Some existing\<close> None have "snd (update K env n u s) =
            snd (saveProfiles K env ?m (in_place path ?m s1))"
          by (simp add: update_def Let_def split: prod.splits sum.splits)
        with save_in_place_inv [OF i1 a] show ?thesis by simp
      qed
    qed
  qed
qed

lemma import_loop_inv:
  assumes "store_inv K s" "\<not> list_ex stored_is_default storeds"
  shows "store_inv K (snd (import_loop K envs i storeds c s))"
  using assms
proof (induction storeds arbitrary: i c s)
  case Nil
  then show ?case by simp
next
  case (Cons x xs)
  show ?case
  proof (cases "decryptProfile K x")
    case None
    with Cons show ?thesis by simp
  next
    case (Some p)
    with Cons.prems(2) have nd: "\<not> is_default p"
      by (simp add: is_default_decrypt)
    obtain r s1 where a: "add K (envs i) p s = (r, s1)"
      by (cases "add K (envs i) p s")
    from add_inv [OF Cons.prems(1) nd, of "envs i"] a have i1: "store_inv K s1"
      by simp
    from Cons.prems(2) have rest: "\<not> list_ex stored_is_default xs" by simp
    from Some a Cons.IH [OF i1 rest] show ?thesis
      by (cases r) simp_all
  qed
qed

lemma import_inv:
  assumes "store_inv K s" "\<not> imports_default data"
  shows "store_inv K (snd (import_profiles K envs data s))"
proof (cases data)
  case Malformed
  with assms(1) show ?thesis by (simp add: import_profiles_def)
next
  case (Json st)
  with assms(2) have "\<not> list_ex stored_is_default (profiles st)"
    by (simp add: imports_default_def)
  from import_loop_inv [OF assms(1) this, of envs 0 0] Json show ?thesis
    by (cases "import_loop K envs 0 (profiles st) 0 s") (simp add: import_profiles_def)
qed

text \<open>
  Claim C2, amended. \<open>store_inv\<close> says that at most one entry of the cache, and at most
  one profile that can be read from the file, is flagged as default. It holds of a new
  store; in a store where it holds every read returns at most one default profile; and it
  is preserved, whether they succeed or fail, by every read, by \<open>setDefault\<close> and
  \<open>remove\<close>, by \<open>add\<close> of a profile that is not flagged, by \<open>update\<close> with an update
  that does not set the flag to true, and by \<open>import\<close> of a container in which no
  stored profile is flagged.
\<close>

theorem at_most_one_default_preserved:
  "store_inv K fresh_store \<and>
   (store_inv K s \<longrightarrow>
      (\<forall>m path s1. loadProfiles K env s = (Inr (m, path), s1) \<longrightarrow> at_most_one_default m) \<and>
      store_inv K (snd (loadProfiles K env s)) \<and>
      store_inv K (snd (setDefault K env n s)) \<and>
      store_inv K (snd (remove K env n s)) \<and>
      (\<not> is_default p \<longrightarrow> store_inv K (snd (add K env p s))) \<and>
      (\<not> sets_default u \<longrightarrow> store_inv K (snd (update K env n u s))) \<and>
      (\<not> imports_default data \<longrightarrow> store_inv K (snd (import_profiles K envs data s))))"
proof (intro conjI impI allI)
  show "store_inv K fresh_store"
    by (simp add: store_inv_def disk_view_def fresh_store_def)
next
  fix m path s1
  assume "store_inv K s" "loadProfiles K env s = (Inr (m, path), s1)"
  then show "at_most_one_default m"
    by (rule loadProfiles_inv(2)) simp
next
  assume i: "store_inv K s"
  have "loadProfiles K env s = (fst (loadProfiles K env s), snd (loadProfiles K env s))"
    by simp
  with i show "store_inv K (snd (loadProfiles K env s))"
    by (rule loadProfiles_inv(1))
  from i show "store_inv K (snd (setDefault K env n s))"
    by (rule setDefault_inv)
  from i show "store_inv K (snd (remove K env n s))"
    by (rule remove_inv)
  {
    assume "\<not> is_default p"
    with i show "store_inv K (snd (add K env p s))"
      by (rule add_inv)
  }
  {
    assume "\<not> sets_default u"
    with i show "store_inv K (snd (update K env n u s))"
      by (rule update_inv)
  }
  assume "\<not> imports_default data"
  with i show "store_inv K (snd (import_profiles K envs data s))"
    by (rule import_inv)
qed

lemma add_new_name:
  assumes "faults s = no_faults" "parseable s"
    "loadProfiles K env s = (Inr (m, path), s1)"
    "validateProfile p = None" "\<not> map_has m (name p)"
  shows "\<exists>s'. add K env p s = (Inr (), s') \<and>
           cachedProfiles s' = map_set (name p) (stamped env p) m"
proof -
  let ?m = "map_set (name p) (stamped env p) m"
  have "fst (saveProfiles K env ?m (in_place path ?m s1)) = Inr ()"
    by (rule save_after_load_ok [OF assms(1,2,3)])
  then obtain s' where sv: "saveProfiles K env ?m (in_place path ?m s1) = (Inr (), s')"
    by (cases "saveProfiles K env ?m (in_place path ?m s1)") auto
  with assms(3,4,5) have "add K env p s = (Inr (), s')"
    by (simp add: add_def Let_def)
  with saveProfiles_success [OF sv] show ?thesis
    by auto
qed

lemma fresh_store_facts:
  "faults fresh_store = no_faults" "parseable fresh_store"
  "loadProfiles K env fresh_store = (Inr ([], Missing), logged Stat fresh_store)"
  by (simp_all add: fresh_store_def parseable_def loadProfiles_eq no_faults_def)

lemma validate_defaults:
  "validateProfile default_local = None" "validateProfile default_staging = None"
  "name default_local = ''local''" "name default_staging = ''staging''"
  by (simp_all add: validateProfile_def default_local_def default_staging_def staging_profile_def
      local_profile_def name_chars_def startsWith_def)

lemma one_default_store_facts:
  "add toy_cipher env1 default_local fresh_store = (Inr (), one_default_store)"
  "cachedProfiles one_default_store = [(''local'', stamped env1 default_local)]"
  "loadProfiles toy_cipher env' one_default_store =
     (Inr ([(''local'', stamped env1 default_local)], CacheHit), logged Stat one_default_store)"
  "faults one_default_store = no_faults" "parseable one_default_store"
proof -
  from add_new_name [OF fresh_store_facts validate_defaults(1), of toy_cipher env1]
  obtain s' where r: "add toy_cipher env1 default_local fresh_store = (Inr (), s')"
    "cachedProfiles s' = [(''local'', stamped env1 default_local)]"
    by (auto simp: map_has_def validate_defaults)
  then have "one_default_store = s'" by (simp add: one_default_store_def)
  with r show a: "add toy_cipher env1 default_local fresh_store = (Inr (), one_default_store)"
    and c: "cachedProfiles one_default_store = [(''local'', stamped env1 default_local)]"
    by simp_all
  have m: "run_mutation toy_cipher env1 (Add default_local) fresh_store = (Inr True, one_default_store)"
    by (simp add: a)
  have ne: "cachedProfiles one_default_store \<noteq> []"
    by (simp add: c)
  note p = persisted_then_hit [OF m fresh_store_facts(1) env1_times ne]
  from p(1) show "loadProfiles toy_cipher env' one_default_store =
     (Inr ([(''local'', stamped env1 default_local)], CacheHit), logged Stat one_default_store)"
    by (simp add: c)
  from p(2) show "faults one_default_store = no_faults" .
  from p(3) show "parseable one_default_store" .
qed

lemma two_default_store_facts:
  "add toy_cipher env1 default_staging one_default_store = (Inr (), two_default_store)"
  "cachedProfiles two_default_store =
     [(''local'', stamped env1 default_local), (''staging'', stamped env1 default_staging)]"
  "loadProfiles toy_cipher env' two_default_store =
     (Inr ([(''local'', stamped env1 default_local), (''staging'', stamped env1 default_staging)],
           CacheHit), logged Stat two_default_store)"
proof -
  from add_new_name [OF one_default_store_facts(4,5) one_default_store_facts(3)
      validate_defaults(2), of env1]
  obtain s' where r: "add toy_cipher env1 default_staging one_default_store = (Inr (), s')"
    "cachedProfiles s' =
       [(''local'', stamped env1 default_local), (''staging'', stamped env1 default_staging)]"
    by (auto simp: map_has_def validate_defaults)
  then have "two_default_store = s'" by (simp add: two_default_store_def)
  with r show a: "add toy_cipher env1 default_staging one_default_store = (Inr (), two_default_store)"
    and c: "cachedProfiles two_default_store =
     [(''local'', stamped env1 default_local), (''staging'', stamped env1 default_staging)]"
    by simp_all
  have m: "run_mutation toy_cipher env1 (Add default_staging) one_default_store =
      (Inr True, two_default_store)"
    by (simp add: a)
  have ne: "cachedProfiles two_default_store \<noteq> []"
    by (simp add: c)
  note p = persisted_then_hit [OF m one_default_store_facts(4) env1_times ne]
  from p(1) show "loadProfiles toy_cipher env' two_default_store =
     (Inr ([(''local'', stamped env1 default_local), (''staging'', stamped env1 default_staging)],
           CacheHit), logged Stat two_default_store)"
    by (simp add: c)
qed

lemma defaults_are_default [simp]:
  "is_default default_local" "is_default default_staging"
  by (simp_all add: is_default_def default_local_def default_staging_def)

text \<open>
  Claim C2, as stated, has \<open>add\<close> preserve the invariant. \<open>add\<close> stores the flag of the
  profile it is given and clears no other: from a new store, two successful \<open>add\<close> calls
  with flagged profiles leave two default profiles, both returned by \<open>list\<close>.
\<close>

theorem add_second_default_counterexample:
  "store_inv toy_cipher fresh_store \<and>
   add toy_cipher env1 default_local fresh_store = (Inr (), one_default_store) \<and>
   add toy_cipher env1 default_staging one_default_store = (Inr (), two_default_store) \<and>
   fst (list_profiles toy_cipher env1 two_default_store) =
     Inr [stamped env1 default_local, stamped env1 default_staging] \<and>
   is_default (stamped env1 default_local) \<and>
   is_default (stamped env1 default_staging) \<and>
   \<not> at_most_one_default (cachedProfiles two_default_store)"
proof -
  have "store_inv toy_cipher fresh_store"
    by (simp add: store_inv_def disk_view_def fresh_store_def)
  moreover have "fst (list_profiles toy_cipher env1 two_default_store) =
     Inr [stamped env1 default_local, stamped env1 default_staging]"
    by (simp add: list_profiles_def two_default_store_facts(3) map_values_def)
  moreover have "\<not> at_most_one_default (cachedProfiles two_default_store)"
    by (simp add: two_default_store_facts(2) at_most_one_default_def default_entries_def)
  ultimately show ?thesis
    by (simp add: one_default_store_facts(1) two_default_store_facts(1))
qed

lemma persisted_inv:
  assumes "run_mutation K env mu s = (Inr True, s')" "at_most_one_default (cachedProfiles s')"
  shows "store_inv K s'"
proof -
  from mutation_written [OF assms(1)] obtain st where
    "profilesFile s' = Some (written K env (cachedProfiles s') st)"
    by blast
  then have "disk_view K s' = decrypt_all K (encrypt_all K env (map_values (cachedProfiles s')))"
    by (simp add: disk_view_def written_def)
  with assms(2) roundtrip_at_most_one [OF assms(2), of K env] show ?thesis
    by (simp add: store_inv_def)
qed

lemma two_store_inv: "store_inv toy_cipher two_store"
proof -
  have m: "run_mutation toy_cipher env1 (Add staging_profile) store_with_local = (Inr True, two_store)"
    by (simp add: add_staging)
  have "at_most_one_default (cachedProfiles two_store)"
    by (simp add: add_staging two_map_def at_most_one_default_def default_entries_def)
  with m show ?thesis by (rule persisted_inv)
qed

theorem at_most_one_default_preserved_witness:
  "store_inv toy_cipher two_store \<and>
   loadProfiles toy_cipher env1 two_store = (Inr (two_map, CacheHit), logged Stat two_store) \<and>
   at_most_one_default two_map \<and>
   store_inv toy_cipher (snd (setDefault toy_cipher env1 ''local'' two_store)) \<and>
   store_inv toy_cipher (snd (remove toy_cipher env1 ''local'' two_store)) \<and>
   \<not> is_default staging_profile \<and>
   store_inv toy_cipher (snd (add toy_cipher env1 staging_profile two_store)) \<and>
   \<not> sets_default database_update \<and>
   store_inv toy_cipher (snd (update toy_cipher env1 ''local'' database_update two_store)) \<and>
   \<not> imports_default (Json local_storage) \<and>
   store_inv toy_cipher
     (snd (import_profiles toy_cipher (\<lambda>i. env1) (Json local_storage) two_store))"
proof -
  note t = at_most_one_default_preserved [of toy_cipher two_store env1 "''local''"
      staging_profile database_update "Json local_storage" "\<lambda>i. env1",
      THEN conjunct2, THEN mp, OF two_store_inv]
  have h1: "loadProfiles toy_cipher env1 two_store = (Inr (two_map, CacheHit), logged Stat two_store)"
    by (rule two_store_facts(1))
  have h2: "\<not> is_default staging_profile"
    by simp
  have h3: "\<not> sets_default database_update"
    by (simp add: sets_default_def database_update_def)
  have h4: "\<not> imports_default (Json local_storage)"
    by (simp add: imports_default_def local_storage_def)
  note a = t [THEN conjunct1, THEN spec, THEN spec, THEN spec, THEN mp, OF h1]
  note b = t [THEN conjunct2, THEN conjunct2, THEN conjunct1]
  note c = t [THEN conjunct2, THEN conjunct2, THEN conjunct2, THEN conjunct1]
  note d = t [THEN conjunct2, THEN conjunct2, THEN conjunct2, THEN conjunct2, THEN conjunct1,
      THEN mp, OF h2]
  note e = t [THEN conjunct2, THEN conjunct2, THEN conjunct2, THEN conjunct2, THEN conjunct2,
      THEN conjunct1, THEN mp, OF h3]
  note f = t [THEN conjunct2, THEN conjunct2, THEN conjunct2, THEN conjunct2, THEN conjunct2,
      THEN conjunct2, THEN mp, OF h4]
  from two_store_inv h1 a b c h2 d h3 e h4 f show ?thesis
    by (intro conjI)
qed

end
